theory Spec2Isabelle
  imports Main "HOL-Library.Multiset"
begin

section \<open>JavaScript values and exceptions\<close>

text \<open>
  The payloads exchanged with the rules engine are opaque JSON documents. A value of
  \<open>json\<close> is a JavaScript value as the handlers see it: \<open>JUndefined\<close> is what
  reading an absent property gives. Numbers are the integers of the wire format.
\<close>

datatype json =
    JUndefined
  | JNull
  | JBool bool
  | JNum int
  | JStr string
  | JArr "json list"
  | JObj "(string \<times> json) list"

text \<open>
  The exceptions the two source files can meet: a \<open>TypeError\<close> from reading a property
  of \<open>null\<close>/\<open>undefined\<close> or from spreading a value that is not iterable, the rejection
  of an axios call (with the engine's HTTP response when there was one), and the rejection
  of a mongoose call.
\<close>

record axios_response =
  resp_status :: nat
  resp_data :: json

datatype exn =
    TypeError
  | AxiosError "axios_response option"
  | MongoError string

text \<open>JavaScript truthiness: \<open>if (v)\<close>, \<open>!v\<close>, \<open>v || w\<close>.\<close>

fun truthy :: "json \<Rightarrow> bool" where
  "truthy JUndefined = False"
| "truthy JNull = False"
| "truthy (JBool b) = b"
| "truthy (JNum n) = (n \<noteq> 0)"
| "truthy (JStr s) = (s \<noteq> [])"
| "truthy (JArr xs) = True"
| "truthy (JObj kvs) = True"

definition or_else :: "json \<Rightarrow> json \<Rightarrow> json" where
  "or_else v w = (if truthy v then v else w)"

fun nullish :: "json \<Rightarrow> bool" where
  "nullish JUndefined = True"
| "nullish JNull = True"
| "nullish v = False"

text \<open>
  \<open>v.k\<close> for the property names the handlers read (\<open>gameId\<close>, \<open>state\<close>, \<open>agents\<close>,
  \<open>gameOver\<close>, ...; none of them is a built-in property of a string or an array):
  a \<open>TypeError\<close> on \<open>null\<close> and \<open>undefined\<close>, the stored value on an object that has
  the key, \<open>undefined\<close> otherwise.
\<close>

fun get_prop :: "json \<Rightarrow> string \<Rightarrow> exn + json" where
  "get_prop JUndefined k = Inl TypeError"
| "get_prop JNull k = Inl TypeError"
| "get_prop (JObj kvs) k = Inr (case map_of kvs k of Some v \<Rightarrow> v | None \<Rightarrow> JUndefined)"
| "get_prop v k = Inr JUndefined"

section \<open>Board Topology Mapper\<close>

subsection \<open>The board catalog served by \<open>GET /api/board\<close>\<close>

record color =
  name :: string
  basePrice :: nat
  baseFare :: nat
  hex :: string

definition colors :: "color list" where
  "colors =
    [\<lparr>name = ''Brown'', basePrice = 60, baseFare = 30, hex = ''#8B4513''\<rparr>,
     \<lparr>name = ''Light Blue'', basePrice = 80, baseFare = 40, hex = ''#87CEEB''\<rparr>,
     \<lparr>name = ''Pink'', basePrice = 100, baseFare = 50, hex = ''#FFB6C1''\<rparr>,
     \<lparr>name = ''Orange'', basePrice = 120, baseFare = 60, hex = ''#FFA500''\<rparr>,
     \<lparr>name = ''Red'', basePrice = 150, baseFare = 75, hex = ''#FF0000''\<rparr>,
     \<lparr>name = ''Yellow'', basePrice = 180, baseFare = 90, hex = ''#FFD700''\<rparr>,
     \<lparr>name = ''Green'', basePrice = 220, baseFare = 110, hex = ''#228B22''\<rparr>,
     \<lparr>name = ''Dark Blue'', basePrice = 280, baseFare = 140, hex = ''#00008B''\<rparr>,
     \<lparr>name = ''Purple'', basePrice = 320, baseFare = 160, hex = ''#800080''\<rparr>]"

definition gamblePositions :: "nat list" where
  "gamblePositions = [9, 19, 29, 39]"

text \<open>
  The two shapes of object pushed onto \<open>board\<close>. \<open>tile_type\<close> is the \<open>type\<close> field.
\<close>

datatype tile =
    GambleTile (tile_index: nat) (tile_name: string) (tile_hex: string)
  | PropertyTile (tile_index: nat) (tile_name: string) (tile_color: string)
      (tile_hex: string) (price: nat) (fare: nat)

fun tile_type :: "tile \<Rightarrow> string" where
  "tile_type (GambleTile i n h) = ''gamble''"
| "tile_type (PropertyTile i n c h p f) = ''property''"

text \<open>\<open>Array.prototype.includes\<close> and \<open>indexOf\<close> (\<open>-1\<close> when absent).\<close>

definition array_includes :: "nat list \<Rightarrow> nat \<Rightarrow> bool" where
  "array_includes xs x = (x \<in> set xs)"

fun indexOf :: "nat list \<Rightarrow> nat \<Rightarrow> int" where
  "indexOf [] x = -1"
| "indexOf (y # ys) x =
     (if y = x then 0 else (let r = indexOf ys x in if r < 0 then -1 else r + 1))"

text \<open>A number inside a template literal: its decimal digits.\<close>

definition digit :: "nat \<Rightarrow> char" where
  "digit d = ''0123456789'' ! (d mod 10)"

function string_of_nat :: "nat \<Rightarrow> string" where
  "string_of_nat n =
     (if n < 10 then [digit n] else string_of_nat (n div 10) @ [digit (n mod 10)])"
  by pat_completeness auto
termination
  by (relation "measure id") auto

definition string_of_int :: "int \<Rightarrow> string" where
  "string_of_int z = (if z < 0 then CHR ''-'' # string_of_nat (nat (- z)) else string_of_nat (nat z))"

text \<open>\<open>colors[colorIdx]\<close>: \<open>undefined\<close> past the end, and then \<open>color.name\<close> throws.\<close>

definition color_at :: "color list \<Rightarrow> nat \<Rightarrow> exn + color" where
  "color_at cs k = (if k < length cs then Inr (cs ! k) else Inl TypeError)"

text \<open>
  The loop \<open>for (let i = 0; i < 40; i++)\<close> with its two mutable variables, the array
  \<open>board\<close> and the counter \<open>propertyIdx\<close>.
\<close>

function board_loop :: "nat \<Rightarrow> tile list \<Rightarrow> nat \<Rightarrow> exn + tile list" where
  "board_loop i board propertyIdx =
     (if i < 40 then
        (if array_includes gamblePositions i then
           board_loop (i + 1)
             (board @ [GambleTile i
                (''Gamble Zone '' @ string_of_int (indexOf gamblePositions i + 1))
                ''#FFD700''])
             propertyIdx
         else
           (let colorIdx = propertyIdx div 4;
                posInColor = propertyIdx mod 4
            in case color_at colors colorIdx of
                 Inl e \<Rightarrow> Inl e
               | Inr color \<Rightarrow>
                   board_loop (i + 1)
                     (board @ [PropertyTile i
                        (name color @ '' Property '' @ string_of_nat (posInColor + 1))
                        (name color)
                        (hex color)
                        (basePrice color + posInColor * 10)
                        (baseFare color + posInColor * 5)])
                     (propertyIdx + 1)))
      else Inr board)"
  by pat_completeness auto
termination
  by (relation "measure (\<lambda>(i, board, propertyIdx). 40 - i)") auto

definition generateBoard :: "exn + tile list" where
  "generateBoard = board_loop 0 [] 0"

subsection \<open>The grid cell of a board index (\<open>getBoardPosition\<close> in the client)\<close>

record board_position =
  row :: int
  col :: int

definition getBoardPosition :: "int \<Rightarrow> board_position" where
  "getBoardPosition index =
     (if index \<le> 10 then \<lparr>row = 11, col = 11 - index\<rparr>
      else if index \<le> 19 then \<lparr>row = 11 - (index - 10), col = 1\<rparr>
      else if index \<le> 30 then \<lparr>row = 1, col = index - 19\<rparr>
      else \<lparr>row = index - 29, col = 11\<rparr>)"

text \<open>
  The cells on the border of the 11 by 11 grid whose rows and columns are numbered from 1
  (CSS grid lines): row 1 is the top edge, row 11 the bottom edge.
\<close>

definition on_perimeter :: "board_position \<Rightarrow> bool" where
  "on_perimeter p =
     (1 \<le> row p \<and> row p \<le> 11 \<and> 1 \<le> col p \<and> col p \<le> 11
      \<and> (row p = 1 \<or> row p = 11 \<or> col p = 1 \<or> col p = 11))"

text \<open>The tiles of one district: the property tiles carrying its colour label.\<close>

fun in_district :: "string \<Rightarrow> tile \<Rightarrow> bool" where
  "in_district c (GambleTile i n h) = False"
| "in_district c (PropertyTile i n c' h p f) = (c' = c)"

definition district :: "tile list \<Rightarrow> string \<Rightarrow> tile list" where
  "district board c = filter (in_district c) board"

section \<open>Session Gateway (server/index.js)\<close>

text \<open>
  Sequencing of evaluations that may throw: the first exception ends the sequence.
\<close>

definition and_then :: "exn + 'a \<Rightarrow> ('a \<Rightarrow> exn + 'b) \<Rightarrow> exn + 'b" where
  "and_then m f = (case m of Inl e \<Rightarrow> Inl e | Inr x \<Rightarrow> f x)"

text \<open>
  \<open>v[i]\<close> for a numeric index, as in \<open>gameData.agents[0]\<close>.
\<close>

fun get_index :: "json \<Rightarrow> nat \<Rightarrow> exn + json" where
  "get_index JUndefined i = Inl TypeError"
| "get_index JNull i = Inl TypeError"
| "get_index (JArr xs) i = Inr (if i < length xs then xs ! i else JUndefined)"
| "get_index (JStr s) i = Inr (if i < length s then JStr [s ! i] else JUndefined)"
| "get_index (JObj kvs) i =
     Inr (case map_of kvs (string_of_nat i) of Some v \<Rightarrow> v | None \<Rightarrow> JUndefined)"
| "get_index v i = Inr JUndefined"

record http_response =
  status :: nat
  body :: json

text \<open>
  The calls a handler makes on the two mongoose models, with their arguments. The History
  Store itself is outside the repository: a handler is given the store as the function
  that says, for a call, whether its promise resolves (\<open>None\<close>) or rejects (\<open>Some e\<close>).
\<close>

datatype db_op =
    GameHistory_create json
  | GameHistory_findOneAndUpdate json json
  | GameHistory_deleteOne json
  | Tournament_create json

type_synonym store = "db_op \<Rightarrow> exn option"

definition store_up :: store where
  "store_up op = None"

definition store_down :: store where
  "store_down op = Some (MongoError ''buffering timed out'')"

text \<open>
  What a handler run leaves behind: the response sent with \<open>res.json\<close>, the store calls
  it issued, and the lines written with \<open>console.log\<close> (the fixed text and the error caught).
\<close>

record outcome =
  response :: http_response
  db_calls :: "db_op list"
  console :: "(string \<times> exn) list"

text \<open>
  The inner \<open>try { await <store call> } catch (dbError) { console.log(msg, dbError.message) }\<close>
  that every mirroring handler contains. Building the arguments of the call happens inside
  the \<open>try\<close> as well, so a \<open>TypeError\<close> there is caught and logged, and no call is made.
\<close>

definition try_store :: "store \<Rightarrow> string \<Rightarrow> exn + db_op \<Rightarrow> db_op list \<times> (string \<times> exn) list" where
  "try_store db msg call =
     (case call of
        Inl dbError \<Rightarrow> ([], [(msg, dbError)])
      | Inr op \<Rightarrow>
          (case db op of
             None \<Rightarrow> ([op], [])
           | Some dbError \<Rightarrow> ([op], [(msg, dbError)])))"

definition send :: "nat \<Rightarrow> json \<Rightarrow> db_op list \<times> (string \<times> exn) list \<Rightarrow> outcome" where
  "send st b eff = \<lparr>response = \<lparr>status = st, body = b\<rparr>, db_calls = fst eff, console = snd eff\<rparr>"

fun error_response :: "exn \<Rightarrow> axios_response option" where
  "error_response (AxiosError r) = r"
| "error_response e = None"

text \<open>\<open>error.response?.data?.error\<close> and \<open>error.response?.status === 404\<close>.\<close>

definition error_response_data_error :: "exn \<Rightarrow> json" where
  "error_response_data_error error =
     (case error_response error of
        None \<Rightarrow> JUndefined
      | Some r \<Rightarrow>
          (if nullish (resp_data r) then JUndefined
           else (case get_prop (resp_data r) ''error'' of Inl e \<Rightarrow> JUndefined | Inr v \<Rightarrow> v)))"

definition status_is_404 :: "exn \<Rightarrow> bool" where
  "status_is_404 error =
     (case error_response error of None \<Rightarrow> False | Some r \<Rightarrow> resp_status r = 404)"

text \<open>
  In every handler \<open>engine\<close> is the settled axios call: \<open>Inr\<close> the \<open>response.data\<close> of a
  2xx answer, \<open>Inl\<close> the rejection. \<open>now\<close> is \<open>new Date()\<close> and \<open>gameId\<close> the path
  parameter \<open>req.params.gameId\<close>.
\<close>

subsection \<open>\<open>POST /api/game/new\<close>\<close>

definition create_call :: "json \<Rightarrow> exn + db_op" where
  "create_call gameData =
     (and_then (get_prop gameData ''gameId'') (\<lambda>gid.
      and_then (get_prop gameData ''agents'') (\<lambda>ags.
      and_then (get_index ags 0) (\<lambda>a1.
      and_then (get_index ags 1) (\<lambda>a2.
      and_then (get_prop gameData ''state'') (\<lambda>st.
        Inr (GameHistory_create
               (JObj [(''gameId'', gid), (''agent1'', a1), (''agent2'', a2),
                      (''finalState'', st), (''history'', JArr [])]))))))))"

definition post_game_new :: "exn + json \<Rightarrow> store \<Rightarrow> outcome" where
  "post_game_new engine db =
     (case engine of
        Inl error \<Rightarrow>
          send 500
            (JObj [(''error'', or_else (error_response_data_error error)
                                 (JStr ''Failed to create game''))])
            ([], [])
      | Inr gameData \<Rightarrow>
          send 200 gameData (try_store db ''Could not save to MongoDB:'' (create_call gameData)))"

subsection \<open>\<open>POST /api/game/:gameId/turn\<close>\<close>

definition turn_call :: "string \<Rightarrow> int \<Rightarrow> json \<Rightarrow> exn + db_op" where
  "turn_call gid now turnData =
     (and_then (get_prop turnData ''winner'') (\<lambda>w.
      and_then (get_prop turnData ''state'') (\<lambda>st.
      and_then (get_prop st ''turnCount'') (\<lambda>tc.
        Inr (GameHistory_findOneAndUpdate
               (JObj [(''gameId'', JStr gid)])
               (JObj [(''winner'', w), (''totalTurns'', tc), (''finalState'', st),
                      (''completedAt'', JNum now)]))))))"

definition turn_failed :: "exn \<Rightarrow> outcome" where
  "turn_failed error =
     (if status_is_404 error then send 404 (JObj [(''error'', JStr ''Game not found'')]) ([], [])
      else send 500 (JObj [(''error'', JStr ''Failed to play turn'')]) ([], []))"

definition post_game_turn :: "string \<Rightarrow> int \<Rightarrow> exn + json \<Rightarrow> store \<Rightarrow> outcome" where
  "post_game_turn gid now engine db =
     (case engine of
        Inl error \<Rightarrow> turn_failed error
      | Inr turnData \<Rightarrow>
          (case get_prop turnData ''gameOver'' of
             Inl error \<Rightarrow> turn_failed error
           | Inr over \<Rightarrow>
               (if truthy over then
                  send 200 turnData
                    (try_store db ''Could not update MongoDB:'' (turn_call gid now turnData))
                else send 200 turnData ([], []))))"

subsection \<open>\<open>POST /api/game/:gameId/play\<close>\<close>

definition play_call :: "string \<Rightarrow> int \<Rightarrow> json \<Rightarrow> exn + db_op" where
  "play_call gid now gameData =
     (and_then (get_prop gameData ''winner'') (\<lambda>w.
      and_then (get_prop gameData ''totalTurns'') (\<lambda>tt.
      and_then (get_prop gameData ''state'') (\<lambda>st.
      and_then (get_prop gameData ''history'') (\<lambda>h.
        Inr (GameHistory_findOneAndUpdate
               (JObj [(''gameId'', JStr gid)])
               (JObj [(''winner'', w), (''totalTurns'', tt), (''finalState'', st),
                      (''history'', h), (''completedAt'', JNum now)])))))))"

definition post_game_play :: "string \<Rightarrow> int \<Rightarrow> exn + json \<Rightarrow> store \<Rightarrow> outcome" where
  "post_game_play gid now engine db =
     (case engine of
        Inl error \<Rightarrow> send 500 (JObj [(''error'', JStr ''Failed to play full game'')]) ([], [])
      | Inr gameData \<Rightarrow>
          send 200 gameData
            (try_store db ''Could not update MongoDB:'' (play_call gid now gameData)))"

subsection \<open>\<open>POST /api/game/:gameId/fast-forward\<close>\<close>

definition post_game_fast_forward :: "exn + json \<Rightarrow> store \<Rightarrow> outcome" where
  "post_game_fast_forward engine db =
     (case engine of
        Inl error \<Rightarrow> send 500 (JObj [(''error'', JStr ''Failed to fast forward'')]) ([], [])
      | Inr data \<Rightarrow> send 200 data ([], []))"

subsection \<open>\<open>DELETE /api/game/:gameId\<close>\<close>

definition delete_game :: "string \<Rightarrow> exn + json \<Rightarrow> store \<Rightarrow> outcome" where
  "delete_game gid engine db =
     (case engine of
        Inl error \<Rightarrow> send 500 (JObj [(''error'', JStr ''Failed to delete game'')]) ([], [])
      | Inr data \<Rightarrow>
          send 200 (JObj [(''message'', JStr ''Game deleted'')])
            (try_store db ''Could not delete from MongoDB:''
               (Inr (GameHistory_deleteOne (JObj [(''gameId'', JStr gid)])))))"

subsection \<open>\<open>POST /api/simulate\<close>\<close>

definition tournament_call :: "json \<Rightarrow> exn + db_op" where
  "tournament_call results =
     (and_then (get_prop results ''agent1'') (\<lambda>a1.
      and_then (get_prop results ''agent2'') (\<lambda>a2.
      and_then (get_prop results ''totalGames'') (\<lambda>tg.
        Inr (Tournament_create
               (JObj [(''agent1'', a1), (''agent2'', a2), (''totalGames'', tg),
                      (''results'', results)]))))))"

definition post_simulate :: "exn + json \<Rightarrow> store \<Rightarrow> outcome" where
  "post_simulate engine db =
     (case engine of
        Inl error \<Rightarrow> send 500 (JObj [(''error'', JStr ''Failed to run simulation'')]) ([], [])
      | Inr results \<Rightarrow>
          send 200 results
            (try_store db ''Could not save tournament to MongoDB:'' (tournament_call results)))"

subsection \<open>\<open>GET /api/history\<close>\<close>

text \<open>
  A stored \<open>GameHistory\<close> document, after \<open>gameHistorySchema\<close>. \<open>createdAt\<close> is the
  creation instant in milliseconds.
\<close>

record game_history =
  gh_gameId :: string
  gh_agent1 :: json
  gh_agent2 :: json
  gh_winner :: json
  gh_totalTurns :: json
  gh_finalState :: json
  gh_history :: json
  createdAt :: int
  completedAt :: json

definition document :: "game_history \<Rightarrow> (string \<times> json) list" where
  "document d =
     [(''gameId'', JStr (gh_gameId d)), (''agent1'', gh_agent1 d), (''agent2'', gh_agent2 d),
      (''winner'', gh_winner d), (''totalTurns'', gh_totalTurns d),
      (''finalState'', gh_finalState d), (''history'', gh_history d),
      (''createdAt'', JNum (createdAt d)), (''completedAt'', completedAt d)]"

text \<open>
  The query \<open>GameHistory.find().sort({ createdAt: -1 }).limit(50).select('-history')\<close>
  over the documents of the collection.
\<close>

definition sort_createdAt_desc :: "game_history list \<Rightarrow> game_history list" where
  "sort_createdAt_desc docs = sort_key (\<lambda>d. - createdAt d) docs"

definition limit :: "nat \<Rightarrow> 'a list \<Rightarrow> 'a list" where
  "limit n docs = take n docs"

definition select_minus :: "string \<Rightarrow> game_history \<Rightarrow> json" where
  "select_minus field d = JObj (filter (\<lambda>kv. fst kv \<noteq> field) (document d))"

definition find_recent :: "game_history list \<Rightarrow> json list" where
  "find_recent docs = map (select_minus ''history'') (limit 50 (sort_createdAt_desc docs))"

text \<open>
  \<open>collection\<close> is the store as the query meets it: \<open>Inl\<close> when its promise rejects,
  \<open>Inr\<close> the stored documents otherwise.
\<close>

definition get_history :: "exn + game_history list \<Rightarrow> http_response" where
  "get_history collection =
     (case collection of
        Inl error \<Rightarrow>
          \<lparr>status = 200,
           body = JObj [(''games'', JArr []), (''error'', JStr ''Database not available'')]\<rparr>
      | Inr docs \<Rightarrow>
          \<lparr>status = 200, body = JObj [(''games'', JArr (find_recent docs))]\<rparr>)"

section \<open>Turn Controller (client/src/App.js)\<close>

subsection \<open>Component state and handlers\<close>

text \<open>
  The \<open>useState\<close> cells of \<open>App\<close> that the game handlers read or write. The setup
  selectors and the tournament panel keep their own cells, which no handler below touches.
  An \<open>async\<close> handler is split at its \<open>await\<close>: \<open>_begin\<close> runs up to the request,
  \<open>_resume\<close> runs from the settled request to the end. \<open>alert\<close> and \<open>console.error\<close>
  leave the state alone and are not recorded.
\<close>

record app_state =
  gameState :: json
  gameId :: json
  agents :: json
  history :: json
  loading :: bool
  autoPlay :: bool
  gameOver :: bool
  winner :: json

definition initial_state :: app_state where
  "initial_state =
     \<lparr>gameState = JNull, gameId = JNull, agents = JArr [], history = JArr [],
      loading = False, autoPlay = False, gameOver = False, winner = JNull\<rparr>"

datatype request =
    PostGameNew
  | PostTurn json
  | PostFastForward json nat
  | PostPlay json

definition startNewGame_begin :: "app_state \<Rightarrow> app_state \<times> request option" where
  "startNewGame_begin s = (s\<lparr>loading := True\<rparr>, Some PostGameNew)"

definition startNewGame_resume :: "exn + json \<Rightarrow> app_state \<Rightarrow> app_state" where
  "startNewGame_resume result s =
     (case and_then result (\<lambda>data.
           and_then (get_prop data ''gameId'') (\<lambda>gid.
           and_then (get_prop data ''state'') (\<lambda>st.
           and_then (get_prop data ''agents'') (\<lambda>ags.
             Inr (s\<lparr>gameId := gid, gameState := st, agents := ags, history := JArr [],
                     gameOver := False, winner := JNull\<rparr>))))) of
        Inl error \<Rightarrow> s\<lparr>loading := False\<rparr>
      | Inr s' \<Rightarrow> s'\<lparr>loading := False\<rparr>)"

text \<open>
  \<open>[...prev, x]\<close>: the elements of an array, the characters of a string; any other value
  is not iterable.
\<close>

fun spread :: "json \<Rightarrow> exn + json list" where
  "spread (JArr xs) = Inr xs"
| "spread (JStr s) = Inr (map (\<lambda>c. JStr [c]) s)"
| "spread v = Inl TypeError"

definition playTurn_begin :: "app_state \<Rightarrow> app_state \<times> request option" where
  "playTurn_begin s =
     (if \<not> truthy (gameId s) \<or> gameOver s then (s, None)
      else (s\<lparr>loading := True\<rparr>, Some (PostTurn (gameId s))))"

text \<open>
  The body of the \<open>try\<close> of \<open>playTurn\<close> after the \<open>await\<close>. The state updater
  \<open>prev => [...prev, turnInfo]\<close> runs inside React, outside the \<open>try\<close>: an exception
  there is not caught by the handler and is the outer \<open>Inl\<close>. The inner sum is the
  \<open>try\<close>/\<open>catch\<close>: its \<open>Inl\<close> carries the state as the setters before the throw left it.
\<close>

definition playTurn_try :: "json \<Rightarrow> app_state \<Rightarrow> exn + (app_state + app_state)" where
  "playTurn_try data s =
     (case get_prop data ''state'' of
        Inl error \<Rightarrow> Inr (Inl s)
      | Inr st \<Rightarrow>
          (let s1 = s\<lparr>gameState := st\<rparr> in
           case get_prop data ''turnInfo'' of
             Inl error \<Rightarrow> Inr (Inl s1)
           | Inr turnInfo \<Rightarrow>
               (case (if truthy turnInfo
                      then and_then (spread (history s1))
                             (\<lambda>prev. Inr (s1\<lparr>history := JArr (prev @ [turnInfo])\<rparr>))
                      else Inr s1) of
                  Inl error \<Rightarrow> Inl error
                | Inr s2 \<Rightarrow>
                    (case get_prop data ''gameOver'' of
                       Inl error \<Rightarrow> Inr (Inl s2)
                     | Inr over \<Rightarrow>
                         (if truthy over then
                            (case get_prop data ''winner'' of
                               Inl error \<Rightarrow> Inr (Inl (s2\<lparr>gameOver := True\<rparr>))
                             | Inr w \<Rightarrow>
                                 Inr (Inr (s2\<lparr>gameOver := True, winner := w,
                                              autoPlay := False\<rparr>)))
                          else Inr (Inr s2))))))"

definition playTurn_resume :: "exn + json \<Rightarrow> app_state \<Rightarrow> exn + app_state" where
  "playTurn_resume result s =
     (case result of
        Inl error \<Rightarrow> Inr (s\<lparr>autoPlay := False, loading := False\<rparr>)
      | Inr data \<Rightarrow>
          (case playTurn_try data s of
             Inl error \<Rightarrow> Inl error
           | Inr (Inl s') \<Rightarrow> Inr (s'\<lparr>autoPlay := False, loading := False\<rparr>)
           | Inr (Inr s') \<Rightarrow> Inr (s'\<lparr>loading := False\<rparr>)))"

definition fastForward_begin :: "nat \<Rightarrow> app_state \<Rightarrow> app_state \<times> request option" where
  "fastForward_begin turns s =
     (if \<not> truthy (gameId s) \<or> gameOver s then (s, None)
      else (s\<lparr>loading := True\<rparr>, Some (PostFastForward (gameId s) turns)))"

definition fastForward_try :: "json \<Rightarrow> app_state \<Rightarrow> app_state + app_state" where
  "fastForward_try data s =
     (case get_prop data ''state'' of
        Inl error \<Rightarrow> Inl s
      | Inr st \<Rightarrow>
          (let s1 = s\<lparr>gameState := st\<rparr> in
           case get_prop data ''gameOver'' of
             Inl error \<Rightarrow> Inl s1
           | Inr over \<Rightarrow>
               (if truthy over then
                  (case get_prop data ''winner'' of
                     Inl error \<Rightarrow> Inl (s1\<lparr>gameOver := True\<rparr>)
                   | Inr w \<Rightarrow> Inr (s1\<lparr>gameOver := True, winner := w\<rparr>))
                else Inr s1)))"

definition fastForward_resume :: "exn + json \<Rightarrow> app_state \<Rightarrow> app_state" where
  "fastForward_resume result s =
     (case result of
        Inl error \<Rightarrow> s\<lparr>loading := False\<rparr>
      | Inr data \<Rightarrow>
          (case fastForward_try data s of
             Inl s' \<Rightarrow> s'\<lparr>loading := False\<rparr>
           | Inr s' \<Rightarrow> s'\<lparr>loading := False\<rparr>))"

definition playToEnd_begin :: "app_state \<Rightarrow> app_state \<times> request option" where
  "playToEnd_begin s =
     (if \<not> truthy (gameId s) \<or> gameOver s then (s, None)
      else (s\<lparr>loading := True\<rparr>, Some (PostPlay (gameId s))))"

definition playToEnd_try :: "json \<Rightarrow> app_state \<Rightarrow> app_state + app_state" where
  "playToEnd_try data s =
     (case get_prop data ''state'' of
        Inl error \<Rightarrow> Inl s
      | Inr st \<Rightarrow>
          (let s1 = s\<lparr>gameState := st\<rparr> in
           case get_prop data ''history'' of
             Inl error \<Rightarrow> Inl s1
           | Inr h \<Rightarrow>
               (let s2 = s1\<lparr>history := or_else h (JArr []), gameOver := True\<rparr> in
                case get_prop data ''winner'' of
                  Inl error \<Rightarrow> Inl s2
                | Inr w \<Rightarrow> Inr (s2\<lparr>winner := w\<rparr>))))"

definition playToEnd_resume :: "exn + json \<Rightarrow> app_state \<Rightarrow> app_state" where
  "playToEnd_resume result s =
     (case result of
        Inl error \<Rightarrow> s\<lparr>loading := False\<rparr>
      | Inr data \<Rightarrow>
          (case playToEnd_try data s of
             Inl s' \<Rightarrow> s'\<lparr>loading := False\<rparr>
           | Inr s' \<Rightarrow> s'\<lparr>loading := False\<rparr>))"

text \<open>The three inline \<open>onClick\<close> handlers.\<close>

definition toggleAutoPlay :: "app_state \<Rightarrow> app_state" where
  "toggleAutoPlay s = s\<lparr>autoPlay := \<not> autoPlay s\<rparr>"

definition newGameClick :: "app_state \<Rightarrow> app_state" where
  "newGameClick s = s\<lparr>gameId := JNull, gameState := JNull, gameOver := False, autoPlay := False\<rparr>"

definition onNewGame :: "app_state \<Rightarrow> app_state" where
  "onNewGame s = s\<lparr>gameId := JNull, gameState := JNull, gameOver := False, winner := JNull\<rparr>"

subsection \<open>The controller as a transition system\<close>

text \<open>
  JavaScript runs one task at a time. The model takes as one step a task together with
  the render and the effects that its state changes cause: a click on a control that is
  rendered and not \<open>disabled\<close>, the auto-play timer firing, or an in-flight request
  settling (in any order, after any delay). Besides the component state the controller
  holds the requests sent and not yet settled, and whether the timer set by the auto-play
  effect, \<open>setTimeout(playTurn, 500)\<close>, is pending.
\<close>

record controller =
  app :: app_state
  timer :: bool
  in_flight :: "request list"

definition initial_controller :: controller where
  "initial_controller = \<lparr>app = initial_state, timer = False, in_flight = []\<rparr>"

text \<open>
  The effect \<open>useEffect(..., [autoPlay, loading, gameOver, playTurn])\<close>; \<open>playTurn\<close> is a
  new function exactly when \<open>gameId\<close> or \<open>gameOver\<close> changed. When a dependency changed,
  the cleanup clears the pending timer and the effect sets one if its condition holds.
\<close>

definition effect_deps :: "app_state \<Rightarrow> bool \<times> bool \<times> bool \<times> json" where
  "effect_deps s = (autoPlay s, loading s, gameOver s, gameId s)"

definition autoPlay_effect :: "app_state \<Rightarrow> bool" where
  "autoPlay_effect s = (autoPlay s \<and> \<not> loading s \<and> \<not> gameOver s)"

definition render :: "controller \<Rightarrow> app_state \<Rightarrow> request list \<Rightarrow> controller" where
  "render c s' reqs =
     \<lparr>app = s',
      timer = (if effect_deps s' = effect_deps (app c) then timer c else autoPlay_effect s'),
      in_flight = reqs\<rparr>"

definition launch :: "controller \<Rightarrow> app_state \<times> request option \<Rightarrow> controller" where
  "launch c started =
     render c (fst started)
       (in_flight c @ (case snd started of None \<Rightarrow> [] | Some r \<Rightarrow> [r]))"

text \<open>
  Which controls can be clicked: the setup view is rendered when \<open>!gameId\<close>, the game view
  otherwise, the modal when \<open>gameOver && winner !== null\<close>; then the \<open>disabled\<close>
  attribute of each button.
\<close>

definition start_enabled :: "app_state \<Rightarrow> bool" where
  "start_enabled s = (\<not> truthy (gameId s) \<and> \<not> loading s)"

definition turn_controls_enabled :: "app_state \<Rightarrow> bool" where
  "turn_controls_enabled s = (truthy (gameId s) \<and> \<not> (loading s \<or> gameOver s \<or> autoPlay s))"

definition autoPlay_enabled :: "app_state \<Rightarrow> bool" where
  "autoPlay_enabled s = (truthy (gameId s) \<and> \<not> (loading s \<or> gameOver s))"

definition newGame_shown :: "app_state \<Rightarrow> bool" where
  "newGame_shown s = truthy (gameId s)"

definition modal_shown :: "app_state \<Rightarrow> bool" where
  "modal_shown s = (gameOver s \<and> winner s \<noteq> JNull)"

datatype event =
    ClickStartGame
  | ClickPlayTurn
  | ClickAutoPlay
  | ClickSkip10
  | ClickPlayToEnd
  | ClickNewGame
  | ClickModalNewGame
  | TimerFires
  | Settle nat "exn + json"

text \<open>
  \<open>Settle i result\<close>: the \<open>i\<close>-th request in flight settles with \<open>result\<close> (\<open>Inr\<close> the
  \<open>response.data\<close>, \<open>Inl\<close> the rejection) and its handler resumes. An exception that no
  handler catches is the \<open>Inl\<close> of the step.
\<close>

definition settle :: "controller \<Rightarrow> nat \<Rightarrow> exn + json \<Rightarrow> exn + controller" where
  "settle c i result =
     (let rest = take i (in_flight c) @ drop (Suc i) (in_flight c) in
      case in_flight c ! i of
        PostGameNew \<Rightarrow> Inr (render c (startNewGame_resume result (app c)) rest)
      | PostTurn gid \<Rightarrow>
          (case playTurn_resume result (app c) of
             Inl error \<Rightarrow> Inl error
           | Inr s' \<Rightarrow> Inr (render c s' rest))
      | PostFastForward gid turns \<Rightarrow> Inr (render c (fastForward_resume result (app c)) rest)
      | PostPlay gid \<Rightarrow> Inr (render c (playToEnd_resume result (app c)) rest))"

fun step :: "controller \<Rightarrow> event \<Rightarrow> exn + controller" where
  "step c ClickStartGame =
     Inr (if start_enabled (app c) then launch c (startNewGame_begin (app c)) else c)"
| "step c ClickPlayTurn =
     Inr (if turn_controls_enabled (app c) then launch c (playTurn_begin (app c)) else c)"
| "step c ClickAutoPlay =
     Inr (if autoPlay_enabled (app c) then render c (toggleAutoPlay (app c)) (in_flight c) else c)"
| "step c ClickSkip10 =
     Inr (if turn_controls_enabled (app c) then launch c (fastForward_begin 10 (app c)) else c)"
| "step c ClickPlayToEnd =
     Inr (if turn_controls_enabled (app c) then launch c (playToEnd_begin (app c)) else c)"
| "step c ClickNewGame =
     Inr (if newGame_shown (app c) then render c (newGameClick (app c)) (in_flight c) else c)"
| "step c ClickModalNewGame =
     Inr (if modal_shown (app c) then render c (onNewGame (app c)) (in_flight c) else c)"
| "step c TimerFires =
     Inr (if timer c then launch (c\<lparr>timer := False\<rparr>) (playTurn_begin (app c)) else c)"
| "step c (Settle i result) =
     (if i < length (in_flight c) then settle c i result else Inr c)"

fun run :: "controller \<Rightarrow> event list \<Rightarrow> exn + controller" where
  "run c [] = Inr c"
| "run c (e # es) = (case step c e of Inl error \<Rightarrow> Inl error | Inr c' \<Rightarrow> run c' es)"

fun is_turn :: "request \<Rightarrow> bool" where
  "is_turn (PostTurn gid) = True"
| "is_turn r = False"

fun iterable :: "json \<Rightarrow> bool" where
  "iterable (JArr xs) = True"
| "iterable (JStr s) = True"
| "iterable v = False"

text \<open>What holds in every state the controller reaches (\<open>run_invariant\<close> below).\<close>

definition controller_inv :: "controller \<Rightarrow> bool" where
  "controller_inv c =
     (length (in_flight c) \<le> 1
      \<and> (in_flight c \<noteq> [] \<longrightarrow> loading (app c))
      \<and> (timer c \<longrightarrow> autoPlay_effect (app c))
      \<and> (autoPlay (app c) \<longrightarrow>
            truthy (gameId (app c)) \<and> \<not> gameOver (app c) \<and> list_all is_turn (in_flight c))
      \<and> (list_ex is_turn (in_flight c) \<longrightarrow> iterable (history (app c)))
      \<and> (iterable (history (app c)) \<or> gameOver (app c) \<or> \<not> truthy (gameId (app c))))"

text \<open>
  A session is created when a \<open>POST /game/new\<close> settles with a body whose fields can be
  read, so that the setters of \<open>startNewGame\<close> run.
\<close>

fun creates_session :: "controller \<Rightarrow> event \<Rightarrow> bool" where
  "creates_session c (Settle i (Inr data)) =
     (i < length (in_flight c) \<and> in_flight c ! i = PostGameNew \<and> \<not> nullish data)"
| "creates_session c e = False"

fun no_new_session :: "controller \<Rightarrow> event list \<Rightarrow> bool" where
  "no_new_session c [] = True"
| "no_new_session c (e # es) =
     (\<not> creates_session c e
      \<and> (case step c e of Inl error \<Rightarrow> True | Inr c' \<Rightarrow> no_new_session c' es))"

text \<open>
  A response carries the terminal flag when \<open>response.data.gameOver\<close> can be read and
  is truthy, the test the handlers make.
\<close>

definition completed :: "json \<Rightarrow> bool" where
  "completed data = (case get_prop data ''gameOver'' of Inl error \<Rightarrow> False | Inr over \<Rightarrow> truthy over)"

text \<open>
  No session is live: the game is over or there is no \<open>gameId\<close>, and nothing but session
  creation is in flight.
\<close>

definition no_live_session :: "controller \<Rightarrow> bool" where
  "no_live_session c =
     ((gameOver (app c) \<or> \<not> truthy (gameId (app c)))
      \<and> list_all (\<lambda>r. r = PostGameNew) (in_flight c))"

section \<open>Properties of the board catalog\<close>

lemma all_below_40: "(\<forall>i<40. P i) = list_all P [0..<40]"
  by (auto simp: list_all_iff)

lemma board_computed:
  "case generateBoard of
     Inl e \<Rightarrow> False
   | Inr board \<Rightarrow>
       length board = 40
       \<and> list_all (\<lambda>i. tile_index (board ! i) = i) [0..<40]
       \<and> list_all (\<lambda>i. (tile_type (board ! i) = ''gamble'') = (i \<in> {9, 19, 29, 39})) [0..<40]
       \<and> list_all (\<lambda>i. i \<in> {9, 19, 29, 39} \<or> tile_type (board ! i) = ''property'') [0..<40]
       \<and> length (filter (\<lambda>t. tile_type t = ''gamble'') board) = 4
       \<and> length (filter (\<lambda>t. tile_type t = ''property'') board) = 36
       \<and> length colors = 9
       \<and> map tile_color (filter (\<lambda>t. tile_type t = ''property'') board) =
           concat (map (\<lambda>c. replicate 4 (name c)) colors)"
  by code_simp

text \<open>
  Claim C4. The board of \<open>GET /api/board\<close> has exactly 40 tiles; the tile at each position
  0..39 carries that position in its \<open>index\<close> field; the gamble tiles are exactly the four
  at 9, 19, 29 and 39, the last index of each edge of ten; the other 36 are property tiles,
  and read in board order their colour labels are the nine catalog colours in catalog
  order, four consecutive tiles each.
\<close>

theorem generateBoard_layout:
  "\<exists>board. generateBoard = Inr board
     \<and> length board = 40
     \<and> (\<forall>i<40. tile_index (board ! i) = i)
     \<and> (\<forall>i<40. (tile_type (board ! i) = ''gamble'') = (i \<in> {9, 19, 29, 39}))
     \<and> (\<forall>i<40. i \<in> {9, 19, 29, 39} \<or> tile_type (board ! i) = ''property'')
     \<and> length (filter (\<lambda>t. tile_type t = ''gamble'') board) = 4
     \<and> length (filter (\<lambda>t. tile_type t = ''property'') board) = 36
     \<and> length colors = 9
     \<and> map tile_color (filter (\<lambda>t. tile_type t = ''property'') board) =
         concat (map (\<lambda>c. replicate 4 (name c)) colors)"
proof (cases generateBoard)
  case (Inl e)
  show ?thesis using board_computed unfolding Inl by (simp only: sum.case)
next
  case (Inr board)
  have "length board = 40
       \<and> list_all (\<lambda>i. tile_index (board ! i) = i) [0..<40]
       \<and> list_all (\<lambda>i. (tile_type (board ! i) = ''gamble'') = (i \<in> {9, 19, 29, 39})) [0..<40]
       \<and> list_all (\<lambda>i. i \<in> {9, 19, 29, 39} \<or> tile_type (board ! i) = ''property'') [0..<40]
       \<and> length (filter (\<lambda>t. tile_type t = ''gamble'') board) = 4
       \<and> length (filter (\<lambda>t. tile_type t = ''property'') board) = 36
       \<and> length colors = 9
       \<and> map tile_color (filter (\<lambda>t. tile_type t = ''property'') board) =
           concat (map (\<lambda>c. replicate 4 (name c)) colors)"
    using board_computed unfolding Inr by (simp only: sum.case)
  then show ?thesis unfolding all_below_40 by (intro exI [of _ board]) (simp only: Inr)
qed

theorem generateBoard_layout_witness:
  "\<exists>board. generateBoard = Inr board \<and> (9::nat) < 40 \<and> tile_index (board ! 9) = 9
     \<and> tile_type (board ! 9) = ''gamble'' \<and> tile_type (board ! 10) = ''property''"
proof -
  obtain board where b: "generateBoard = Inr board"
    and i: "\<forall>i<40. tile_index (board ! i) = i"
    and g: "\<forall>i<40. (tile_type (board ! i) = ''gamble'') = (i \<in> {9, 19, 29, 39})"
    and p: "\<forall>i<40. i \<in> {9, 19, 29, 39} \<or> tile_type (board ! i) = ''property''"
    using generateBoard_layout by blast
  have "tile_index (board ! 9) = 9" using i by simp
  moreover have "tile_type (board ! 9) = ''gamble''" using g by simp
  moreover have "tile_type (board ! 10) = ''property''" using p [rule_format, of 10] by simp
  ultimately show ?thesis by (intro exI [of _ board]) (simp add: b)
qed

lemma all_below_3: "(\<forall>i<3. P i) = list_all P [0..<3]"
  by (auto simp: list_all_iff)

lemma district_computed:
  "case generateBoard of
     Inl e \<Rightarrow> False
   | Inr board \<Rightarrow>
      length colors = 9 \<and> distinct (map name colors) \<and>
      list_all (\<lambda>c.
        map (\<lambda>t. (price t, fare t)) (district board (name c)) =
          map (\<lambda>position. (basePrice c + position * 10, baseFare c + position * 5)) [0..<4]
        \<and> sorted_wrt (\<lambda>a b. price a < price b \<and> fare a < fare b) (district board (name c))
        \<and> list_all (\<lambda>position.
              price (district board (name c) ! Suc position) =
                price (district board (name c) ! position) + 10
              \<and> fare (district board (name c) ! Suc position) =
                fare (district board (name c) ! position) + 5) [0..<3])
       colors"
  by code_simp

text \<open>
  Claim C5. In each of the nine districts the four property tiles have, at position 0..3,
  \<open>price = basePrice + position * 10\<close> and \<open>fare = baseFare + position * 5\<close>; price and
  fare are therefore strictly increasing inside the district, by 10 and by 5 from one
  position to the next.
\<close>

theorem district_pricing:
  "\<exists>board. generateBoard = Inr board
     \<and> length colors = 9 \<and> distinct (map name colors)
     \<and> (\<forall>c \<in> set colors.
           map (\<lambda>t. (price t, fare t)) (district board (name c)) =
             map (\<lambda>position. (basePrice c + position * 10, baseFare c + position * 5)) [0..<4]
           \<and> sorted_wrt (\<lambda>a b. price a < price b \<and> fare a < fare b) (district board (name c))
           \<and> (\<forall>position<3.
                 price (district board (name c) ! Suc position) =
                   price (district board (name c) ! position) + 10
                 \<and> fare (district board (name c) ! Suc position) =
                   fare (district board (name c) ! position) + 5))"
proof (cases generateBoard)
  case (Inl e)
  show ?thesis using district_computed unfolding Inl by (simp only: sum.case)
next
  case (Inr board)
  have "length colors = 9 \<and> distinct (map name colors) \<and> list_all (\<lambda>c.
        map (\<lambda>t. (price t, fare t)) (district board (name c)) =
          map (\<lambda>position. (basePrice c + position * 10, baseFare c + position * 5)) [0..<4]
        \<and> sorted_wrt (\<lambda>a b. price a < price b \<and> fare a < fare b) (district board (name c))
        \<and> list_all (\<lambda>position.
              price (district board (name c) ! Suc position) =
                price (district board (name c) ! position) + 10
              \<and> fare (district board (name c) ! Suc position) =
                fare (district board (name c) ! position) + 5) [0..<3])
       colors"
    using district_computed unfolding Inr by (simp only: sum.case)
  then have n: "length colors = 9" and d: "distinct (map name colors)"
    and p: "\<forall>c \<in> set colors.
           map (\<lambda>t. (price t, fare t)) (district board (name c)) =
             map (\<lambda>position. (basePrice c + position * 10, baseFare c + position * 5)) [0..<4]
           \<and> sorted_wrt (\<lambda>a b. price a < price b \<and> fare a < fare b) (district board (name c))
           \<and> (\<forall>position<3.
                 price (district board (name c) ! Suc position) =
                   price (district board (name c) ! position) + 10
                 \<and> fare (district board (name c) ! Suc position) =
                   fare (district board (name c) ! position) + 5)"
    unfolding all_below_3 list_all_iff by blast+
  from Inr n d p show ?thesis by blast
qed

theorem district_pricing_witness:
  "\<exists>board. generateBoard = Inr board
     \<and> \<lparr>name = ''Red'', basePrice = 150, baseFare = 75, hex = ''#FF0000''\<rparr> \<in> set colors
     \<and> map (\<lambda>t. (price t, fare t)) (district board ''Red'') =
         [(150, 75), (160, 80), (170, 85), (180, 90)]"
proof -
  have red: "\<lparr>name = ''Red'', basePrice = 150, baseFare = 75, hex = ''#FF0000''\<rparr> \<in> set colors"
    by (simp add: colors_def)
  obtain board where b: "generateBoard = Inr board"
    and d: "\<forall>c \<in> set colors.
           map (\<lambda>t. (price t, fare t)) (district board (name c)) =
             map (\<lambda>position. (basePrice c + position * 10, baseFare c + position * 5)) [0..<4]"
    using district_pricing by blast
  have "[0..<4] = [0, 1, 2, 3::nat]" by code_simp
  with d [rule_format, OF red]
  have "map (\<lambda>t. (price t, fare t)) (district board ''Red'') =
         [(150, 75), (160, 80), (170, 85), (180, 90)]" by simp
  with red show ?thesis by (intro exI [of _ board]) (simp add: b)
qed

section \<open>Properties of the grid mapping\<close>

lemma getBoardPosition_inj: "inj_on getBoardPosition {0..39}"
  by (auto simp: inj_on_def getBoardPosition_def split: if_splits)

lemma getBoardPosition_image: "getBoardPosition ` {0..39} = {p. on_perimeter p}"
proof (intro equalityI subsetI)
  fix p assume "p \<in> getBoardPosition ` {0..39}"
  then show "p \<in> {p. on_perimeter p}"
    by (auto simp: getBoardPosition_def on_perimeter_def)
next
  fix p assume "p \<in> {p. on_perimeter p}"
  then have per: "on_perimeter p" by simp
  define i where "i = (if row p = 11 then 11 - col p else if col p = 1 then 21 - row p
     else if row p = 1 then col p + 19 else row p + 29)"
  have "i \<in> {0..39}" using per unfolding i_def on_perimeter_def by auto
  moreover have "getBoardPosition i = p"
    using per unfolding i_def on_perimeter_def getBoardPosition_def by (cases p) auto
  ultimately show "p \<in> getBoardPosition ` {0..39}" by force
qed

text \<open>
  Claim C6. \<open>getBoardPosition\<close> is a bijection from the indices 0..39 onto the 40 border
  cells of the 11 by 11 grid, so no two distinct indices share a cell. Indices 0..10 lie on
  the bottom row with the column decreasing, 11..19 on the left column going up, 20..30 on
  the top row with the column increasing, 31..39 on the right column going down; indices
  0, 10, 20 and 30 are the four corners.
\<close>

theorem getBoardPosition_bijection:
  "bij_betw getBoardPosition {0..39} {p. on_perimeter p}
   \<and> (\<forall>i \<in> {0..39}. \<forall>j \<in> {0..39}. i \<noteq> j \<longrightarrow> getBoardPosition i \<noteq> getBoardPosition j)
   \<and> (\<forall>i \<in> {0..10}. getBoardPosition i = \<lparr>row = 11, col = 11 - i\<rparr>)
   \<and> (\<forall>i \<in> {11..19}. getBoardPosition i = \<lparr>row = 21 - i, col = 1\<rparr>)
   \<and> (\<forall>i \<in> {20..30}. getBoardPosition i = \<lparr>row = 1, col = i - 19\<rparr>)
   \<and> (\<forall>i \<in> {31..39}. getBoardPosition i = \<lparr>row = i - 29, col = 11\<rparr>)
   \<and> getBoardPosition 0 = \<lparr>row = 11, col = 11\<rparr>
   \<and> getBoardPosition 10 = \<lparr>row = 11, col = 1\<rparr>
   \<and> getBoardPosition 20 = \<lparr>row = 1, col = 1\<rparr>
   \<and> getBoardPosition 30 = \<lparr>row = 1, col = 11\<rparr>"
proof -
  have "bij_betw getBoardPosition {0..39} {p. on_perimeter p}"
    unfolding bij_betw_def using getBoardPosition_inj getBoardPosition_image by simp
  moreover have "\<forall>i \<in> {0..39}. \<forall>j \<in> {0..39}. i \<noteq> j \<longrightarrow> getBoardPosition i \<noteq> getBoardPosition j"
    using getBoardPosition_inj unfolding inj_on_def by blast
  moreover have "\<forall>i \<in> {0..10}. getBoardPosition i = \<lparr>row = 11, col = 11 - i\<rparr>"
    by (simp add: getBoardPosition_def)
  moreover have "\<forall>i \<in> {11..19}. getBoardPosition i = \<lparr>row = 21 - i, col = 1\<rparr>"
    by (simp add: getBoardPosition_def)
  moreover have "\<forall>i \<in> {20..30}. getBoardPosition i = \<lparr>row = 1, col = i - 19\<rparr>"
    by (simp add: getBoardPosition_def)
  moreover have "\<forall>i \<in> {31..39}. getBoardPosition i = \<lparr>row = i - 29, col = 11\<rparr>"
    by (simp add: getBoardPosition_def)
  moreover have "getBoardPosition 0 = \<lparr>row = 11, col = 11\<rparr>"
    "getBoardPosition 10 = \<lparr>row = 11, col = 1\<rparr>"
    "getBoardPosition 20 = \<lparr>row = 1, col = 1\<rparr>"
    "getBoardPosition 30 = \<lparr>row = 1, col = 11\<rparr>"
    by (simp_all add: getBoardPosition_def)
  ultimately show ?thesis by blast
qed

theorem getBoardPosition_bijection_witness:
  "(10::int) \<in> {0..39} \<and> (11::int) \<in> {0..39} \<and> (10::int) \<noteq> 11
   \<and> getBoardPosition 10 \<noteq> getBoardPosition 11
   \<and> (15::int) \<in> {11..19} \<and> getBoardPosition 15 = \<lparr>row = 6, col = 1\<rparr>
   \<and> on_perimeter (getBoardPosition 15)"
proof -
  have a: "(10::int) \<in> {0..39}" "(11::int) \<in> {0..39}" "(10::int) \<noteq> 11" "(15::int) \<in> {11..19}" "(15::int) \<in> {0..39}"
    by simp_all
  have "getBoardPosition 10 \<noteq> getBoardPosition 11"
    using getBoardPosition_bijection a by blast
  moreover have "getBoardPosition 15 = \<lparr>row = 21 - 15, col = 1\<rparr>"
    using getBoardPosition_bijection a by blast
  moreover have "on_perimeter (getBoardPosition 15)"
    using getBoardPosition_bijection a(5) unfolding bij_betw_def by blast
  ultimately show ?thesis using a by simp
qed

section \<open>Properties of the Session Gateway\<close>

lemma response_send: "response (send st b eff) = \<lparr>status = st, body = b\<rparr>"
  by (simp add: send_def)

lemma db_calls_send: "db_calls (send st b eff) = fst eff"
  by (simp add: send_def)

lemma get_prop_nullish: "get_prop v k = Inl e \<Longrightarrow> nullish v"
  by (cases v) auto

lemma get_prop_not_nullish: "\<not> nullish v \<Longrightarrow> \<exists>x. get_prop v k = Inr x"
  by (cases v) auto

lemma get_prop_of_nullish: "nullish v \<Longrightarrow> get_prop v k = Inl TypeError"
  by (cases v) auto

lemma response_post_game_new:
  "response (post_game_new engine db) =
     (case engine of
        Inl error \<Rightarrow>
          \<lparr>status = 500,
           body = JObj [(''error'', or_else (error_response_data_error error)
                                      (JStr ''Failed to create game''))]\<rparr>
      | Inr gameData \<Rightarrow> \<lparr>status = 200, body = gameData\<rparr>)"
  by (simp add: post_game_new_def response_send split: sum.splits)

lemma response_turn_failed:
  "response (turn_failed error) =
     (if status_is_404 error then \<lparr>status = 404, body = JObj [(''error'', JStr ''Game not found'')]\<rparr>
      else \<lparr>status = 500, body = JObj [(''error'', JStr ''Failed to play turn'')]\<rparr>)"
  by (simp add: turn_failed_def response_send)

lemma response_post_game_turn:
  "response (post_game_turn gid now engine db) =
     (case engine of
        Inl error \<Rightarrow> response (turn_failed error)
      | Inr turnData \<Rightarrow>
          (if nullish turnData then response (turn_failed TypeError)
           else \<lparr>status = 200, body = turnData\<rparr>))"
proof (cases engine)
  case (Inl error)
  then show ?thesis by (simp add: post_game_turn_def)
next
  case (Inr turnData)
  show ?thesis
  proof (cases "nullish turnData")
    case True
    then show ?thesis using Inr
      by (simp add: post_game_turn_def get_prop_of_nullish)
  next
    case False
    then obtain over where "get_prop turnData ''gameOver'' = Inr over"
      using get_prop_not_nullish by blast
    then show ?thesis using Inr False
      by (simp add: post_game_turn_def response_send)
  qed
qed

lemma response_post_game_play:
  "response (post_game_play gid now engine db) =
     (case engine of
        Inl error \<Rightarrow> \<lparr>status = 500, body = JObj [(''error'', JStr ''Failed to play full game'')]\<rparr>
      | Inr gameData \<Rightarrow> \<lparr>status = 200, body = gameData\<rparr>)"
  by (simp add: post_game_play_def response_send split: sum.splits)

lemma response_post_game_fast_forward:
  "response (post_game_fast_forward engine db) =
     (case engine of
        Inl error \<Rightarrow> \<lparr>status = 500, body = JObj [(''error'', JStr ''Failed to fast forward'')]\<rparr>
      | Inr data \<Rightarrow> \<lparr>status = 200, body = data\<rparr>)"
  by (simp add: post_game_fast_forward_def response_send split: sum.splits)

lemma response_delete_game:
  "response (delete_game gid engine db) =
     (case engine of
        Inl error \<Rightarrow> \<lparr>status = 500, body = JObj [(''error'', JStr ''Failed to delete game'')]\<rparr>
      | Inr data \<Rightarrow> \<lparr>status = 200, body = JObj [(''message'', JStr ''Game deleted'')]\<rparr>)"
  by (simp add: delete_game_def response_send split: sum.splits)

lemma response_post_simulate:
  "response (post_simulate engine db) =
     (case engine of
        Inl error \<Rightarrow> \<lparr>status = 500, body = JObj [(''error'', JStr ''Failed to run simulation'')]\<rparr>
      | Inr results \<Rightarrow> \<lparr>status = 200, body = results\<rparr>)"
  by (simp add: post_simulate_def response_send split: sum.splits)

text \<open>
  Claim C1. For create, single turn, fast-forward, play to completion, delete and tournament
  simulation, the response of the Gateway does not depend on the History Store: whatever
  two stores \<open>db\<close> and \<open>db'\<close> do with the mirroring call, status and body are the same,
  and after a successful engine call they are the 200 answer built from the engine's data
  (for a turn, provided that data is an object whose \<open>gameOver\<close> can be read).
\<close>

theorem store_failure_never_alters_response:
  "response (post_game_new engine db) = response (post_game_new engine db')
   \<and> response (post_game_turn gid now engine db) = response (post_game_turn gid now engine db')
   \<and> response (post_game_fast_forward engine db) = response (post_game_fast_forward engine db')
   \<and> response (post_game_play gid now engine db) = response (post_game_play gid now engine db')
   \<and> response (delete_game gid engine db) = response (delete_game gid engine db')
   \<and> response (post_simulate engine db) = response (post_simulate engine db')
   \<and> response (post_game_new (Inr data) db) = \<lparr>status = 200, body = data\<rparr>
   \<and> response (post_game_turn gid now (Inr data) db) =
       (if nullish data then \<lparr>status = 500, body = JObj [(''error'', JStr ''Failed to play turn'')]\<rparr>
        else \<lparr>status = 200, body = data\<rparr>)
   \<and> response (post_game_fast_forward (Inr data) db) = \<lparr>status = 200, body = data\<rparr>
   \<and> response (post_game_play gid now (Inr data) db) = \<lparr>status = 200, body = data\<rparr>
   \<and> response (delete_game gid (Inr data) db) =
       \<lparr>status = 200, body = JObj [(''message'', JStr ''Game deleted'')]\<rparr>
   \<and> response (post_simulate (Inr data) db) = \<lparr>status = 200, body = data\<rparr>"
  by (simp add: response_post_game_new response_post_game_turn response_post_game_fast_forward
      response_post_game_play response_delete_game response_post_simulate
      response_turn_failed status_is_404_def)

theorem store_outage_witness:
  "response (post_game_turn ''g1'' 0 (Inr (JObj [(''state'', JObj [(''turnCount'', JNum 7)]),
        (''gameOver'', JBool True), (''winner'', JNum 1)])) store_down)
   = response (post_game_turn ''g1'' 0 (Inr (JObj [(''state'', JObj [(''turnCount'', JNum 7)]),
        (''gameOver'', JBool True), (''winner'', JNum 1)])) store_up)
   \<and> console (post_game_turn ''g1'' 0 (Inr (JObj [(''state'', JObj [(''turnCount'', JNum 7)]),
        (''gameOver'', JBool True), (''winner'', JNum 1)])) store_down)
     = [(''Could not update MongoDB:'', MongoError ''buffering timed out'')]
   \<and> console (post_game_turn ''g1'' 0 (Inr (JObj [(''state'', JObj [(''turnCount'', JNum 7)]),
        (''gameOver'', JBool True), (''winner'', JNum 1)])) store_up) = []"
  using store_failure_never_alters_response
    [of "Inr (JObj [(''state'', JObj [(''turnCount'', JNum 7)]),
        (''gameOver'', JBool True), (''winner'', JNum 1)])" store_down store_up "''g1''" 0]
  by (simp add: post_game_turn_def turn_call_def and_then_def try_store_def send_def
      store_down_def store_up_def)

text \<open>
  Claim C7, as the handler has it. The deletion is forwarded to the engine. When the engine
  call succeeds, the mirrored History record is deleted best-effort and the caller gets the
  acknowledgement whatever the store does. When the engine call fails, for any reason, no
  mirror delete is attempted and the caller gets status 500.
\<close>

theorem delete_game_mirrors_after_engine_success:
  "db_calls (delete_game gid (Inr data) db) = [GameHistory_deleteOne (JObj [(''gameId'', JStr gid)])]
   \<and> response (delete_game gid (Inr data) db) =
       \<lparr>status = 200, body = JObj [(''message'', JStr ''Game deleted'')]\<rparr>
   \<and> db_calls (delete_game gid (Inl error) db) = []
   \<and> response (delete_game gid (Inl error) db) =
       \<lparr>status = 500, body = JObj [(''error'', JStr ''Failed to delete game'')]\<rparr>"
  by (simp add: delete_game_def send_def try_store_def split: option.splits)

text \<open>
  The claim as it was stated asks for the mirror delete whenever the engine did not report
  \<open>NotFound\<close>. An engine failure with status 500 is not a \<open>NotFound\<close>, and the handler
  makes no store call.
\<close>

theorem delete_without_engine_success_counterexample:
  "\<not> status_is_404 (AxiosError (Some \<lparr>resp_status = 500, resp_data = JNull\<rparr>))
   \<and> db_calls (delete_game ''g1''
         (Inl (AxiosError (Some \<lparr>resp_status = 500, resp_data = JNull\<rparr>))) store_up) = []
   \<and> db_calls (delete_game ''g1''
         (Inl (AxiosError (Some \<lparr>resp_status = 500, resp_data = JNull\<rparr>))) store_up)
       \<noteq> [GameHistory_deleteOne (JObj [(''gameId'', JStr ''g1'')])]"
  by (simp add: delete_game_def send_def status_is_404_def)

lemma sorted_desc: "sorted_wrt (\<lambda>a b. createdAt b \<le> createdAt a) (sort_createdAt_desc docs)"
proof -
  have "sorted (map (\<lambda>d. - createdAt d) (sort_createdAt_desc docs))"
    unfolding sort_createdAt_desc_def by (rule sorted_sort_key)
  then show ?thesis
    by (simp add: sorted_map sorted_wrt_iff_nth_less)
qed

lemma no_history_field:
  "\<exists>kvs. select_minus ''history'' d = JObj kvs \<and> ''history'' \<notin> fst ` set kvs"
  by (auto simp: select_minus_def)

text \<open>
  Claim C8. \<open>GET /api/history\<close> answers with status 200 in both outcomes. When the store
  is unavailable the body is \<open>{games: [], error: 'Database not available'}\<close>. When it is
  available the body lists at most 50 documents, the most recently created ones, newest
  first, each without its \<open>history\<close> field.
\<close>

theorem get_history_always_200:
  "status (get_history collection) = 200
   \<and> get_history (Inl error) =
       \<lparr>status = 200,
        body = JObj [(''games'', JArr []), (''error'', JStr ''Database not available'')]\<rparr>
   \<and> ''Database not available'' \<noteq> ''''
   \<and> (\<exists>recent older.
         get_history (Inr docs) =
           \<lparr>status = 200, body = JObj [(''games'', JArr (map (select_minus ''history'') recent))]\<rparr>
         \<and> length recent = min 50 (length docs)
         \<and> mset (recent @ older) = mset docs
         \<and> sorted_wrt (\<lambda>a b. createdAt b \<le> createdAt a) recent
         \<and> (\<forall>a \<in> set recent. \<forall>b \<in> set older. createdAt b \<le> createdAt a)
         \<and> (\<forall>d \<in> set recent.
               \<exists>kvs. select_minus ''history'' d = JObj kvs \<and> ''history'' \<notin> fst ` set kvs))"
proof -
  let ?sorted = "sort_createdAt_desc docs"
  have st: "status (get_history collection) = 200"
    by (cases collection) (simp_all add: get_history_def)
  have down: "get_history (Inl error) =
       \<lparr>status = 200,
        body = JObj [(''games'', JArr []), (''error'', JStr ''Database not available'')]\<rparr>"
    by (simp add: get_history_def)
  have up: "get_history (Inr docs) =
           \<lparr>status = 200, body = JObj [(''games'', JArr (map (select_minus ''history'') (take 50 ?sorted)))]\<rparr>"
    by (simp add: get_history_def find_recent_def limit_def)
  have len: "length (take 50 ?sorted) = min 50 (length docs)"
    by (simp add: sort_createdAt_desc_def min.commute)
  have ms: "mset (take 50 ?sorted @ drop 50 ?sorted) = mset docs"
    by (simp add: sort_createdAt_desc_def)
  have "sorted_wrt (\<lambda>a b. createdAt b \<le> createdAt a) (take 50 ?sorted @ drop 50 ?sorted)"
    using sorted_desc by simp
  then have srt: "sorted_wrt (\<lambda>a b. createdAt b \<le> createdAt a) (take 50 ?sorted)"
    and cut: "\<forall>a \<in> set (take 50 ?sorted). \<forall>b \<in> set (drop 50 ?sorted). createdAt b \<le> createdAt a"
    unfolding sorted_wrt_append by blast+
  show ?thesis
    using st down up len ms srt cut no_history_field by blast
qed

theorem get_history_always_200_witness:
  "get_history (Inr
      [\<lparr>gh_gameId = ''old'', gh_agent1 = JNull, gh_agent2 = JNull, gh_winner = JNull,
        gh_totalTurns = JNull, gh_finalState = JNull, gh_history = JArr [JNum 1],
        createdAt = 1, completedAt = JNull\<rparr>,
       \<lparr>gh_gameId = ''new'', gh_agent1 = JNull, gh_agent2 = JNull, gh_winner = JNull,
        gh_totalTurns = JNull, gh_finalState = JNull, gh_history = JArr [JNum 2],
        createdAt = 2, completedAt = JNull\<rparr>])
   = \<lparr>status = 200,
      body = JObj [(''games'', JArr
        [JObj [(''gameId'', JStr ''new''), (''agent1'', JNull), (''agent2'', JNull),
               (''winner'', JNull), (''totalTurns'', JNull), (''finalState'', JNull),
               (''createdAt'', JNum 2), (''completedAt'', JNull)],
         JObj [(''gameId'', JStr ''old''), (''agent1'', JNull), (''agent2'', JNull),
               (''winner'', JNull), (''totalTurns'', JNull), (''finalState'', JNull),
               (''createdAt'', JNum 1), (''completedAt'', JNull)]])]\<rparr>
   \<and> get_history (Inl (MongoError ''down'')) =
       \<lparr>status = 200,
        body = JObj [(''games'', JArr []), (''error'', JStr ''Database not available'')]\<rparr>"
  using get_history_always_200
    [of "Inl (MongoError ''down'')" "MongoError ''down''"
      "[\<lparr>gh_gameId = ''old'', gh_agent1 = JNull, gh_agent2 = JNull, gh_winner = JNull,
        gh_totalTurns = JNull, gh_finalState = JNull, gh_history = JArr [JNum 1],
        createdAt = 1, completedAt = JNull\<rparr>,
       \<lparr>gh_gameId = ''new'', gh_agent1 = JNull, gh_agent2 = JNull, gh_winner = JNull,
        gh_totalTurns = JNull, gh_finalState = JNull, gh_history = JArr [JNum 2],
        createdAt = 2, completedAt = JNull\<rparr>]"]
  by (simp add: get_history_def find_recent_def limit_def sort_createdAt_desc_def
      select_minus_def document_def)

section \<open>Properties of the Turn Controller\<close>

lemma iterable_spread: "iterable h \<Longrightarrow> \<exists>xs. spread h = Inr xs"
  by (cases h) auto

lemma startNewGame_resume_cases:
  "startNewGame_resume result s = s\<lparr>loading := False\<rparr>
   \<or> (\<exists>gid st ags. startNewGame_resume result s =
         s\<lparr>gameId := gid, gameState := st, agents := ags, history := JArr [],
           gameOver := False, winner := JNull, loading := False\<rparr>)"
  by (auto simp: startNewGame_resume_def and_then_def split: sum.splits)

lemma playTurn_resume_fields:
  assumes "playTurn_resume result s = Inr s'"
  shows "\<not> loading s'" and "autoPlay s' \<longrightarrow> autoPlay s" and "gameId s' = gameId s"
    and "gameOver s' = gameOver s \<or> (gameOver s' \<and> \<not> autoPlay s')"
    and "iterable (history s) \<longrightarrow> iterable (history s')"
  using assms
  by (auto simp: playTurn_resume_def playTurn_try_def and_then_def Let_def
      split: sum.splits if_splits)

lemma playTurn_resume_returns:
  "iterable (history s) \<Longrightarrow> \<exists>s'. playTurn_resume result s = Inr s'"
  by (auto simp: playTurn_resume_def playTurn_try_def and_then_def Let_def
      dest!: iterable_spread [where h = "history s"] split: sum.splits if_splits)

lemma fastForward_resume_fields:
  "\<not> loading (fastForward_resume result s)"
  "autoPlay (fastForward_resume result s) = autoPlay s"
  "gameId (fastForward_resume result s) = gameId s"
  "history (fastForward_resume result s) = history s"
  "gameOver s \<longrightarrow> gameOver (fastForward_resume result s)"
  by (auto simp: fastForward_resume_def fastForward_try_def Let_def split: sum.splits if_splits)

lemma playToEnd_resume_fields:
  "\<not> loading (playToEnd_resume result s)"
  "autoPlay (playToEnd_resume result s) = autoPlay s"
  "gameId (playToEnd_resume result s) = gameId s"
  "gameOver (playToEnd_resume result s) \<or>
     (history (playToEnd_resume result s) = history s \<and> \<not> gameOver s)"
  by (auto simp: playToEnd_resume_def playToEnd_try_def Let_def split: sum.splits if_splits)


lemma render_simps:
  "app (render c s' reqs) = s'"
  "in_flight (render c s' reqs) = reqs"
  "timer (render c s' reqs) =
     (if effect_deps s' = effect_deps (app c) then timer c else autoPlay_effect s')"
  by (simp_all add: render_def)

lemma inv_in_flight:
  "controller_inv c \<Longrightarrow> in_flight c = [] \<or> (\<exists>r. in_flight c = [r] \<and> loading (app c))"
  by (cases "in_flight c") (auto simp: controller_inv_def)

lemma inv_idle: "controller_inv c \<Longrightarrow> \<not> loading (app c) \<Longrightarrow> in_flight c = []"
  by (auto simp: controller_inv_def)

lemma inv_timer: "controller_inv c \<Longrightarrow> timer c \<Longrightarrow> autoPlay_effect (app c)"
  by (auto simp: controller_inv_def)

lemma inv_ClickStartGame:
  assumes "controller_inv c" "start_enabled (app c)"
  shows "controller_inv (launch c (startNewGame_begin (app c)))"
proof -
  have "in_flight c = []" using assms inv_idle by (simp add: start_enabled_def)
  then show ?thesis using assms
    by (auto simp: controller_inv_def launch_def startNewGame_begin_def render_simps
        start_enabled_def autoPlay_effect_def effect_deps_def)
qed

lemma inv_turn_begin:
  assumes "controller_inv c" "truthy (gameId (app c))" "\<not> loading (app c)" "\<not> gameOver (app c)"
  shows "controller_inv (launch (c\<lparr>timer := t\<rparr>) (playTurn_begin (app c)))"
proof -
  have "in_flight c = []" using assms inv_idle by simp
  then show ?thesis using assms
    by (auto simp: controller_inv_def launch_def playTurn_begin_def render_simps
        autoPlay_effect_def effect_deps_def)
qed

lemma inv_batch_begin:
  assumes "controller_inv c" "turn_controls_enabled (app c)"
  shows "controller_inv (launch c (fastForward_begin n (app c)))"
    and "controller_inv (launch c (playToEnd_begin (app c)))"
proof -
  have "in_flight c = []" using assms inv_idle by (simp add: turn_controls_enabled_def)
  then show "controller_inv (launch c (fastForward_begin n (app c)))"
    and "controller_inv (launch c (playToEnd_begin (app c)))" using assms
    by (auto simp: controller_inv_def launch_def fastForward_begin_def playToEnd_begin_def
        render_simps turn_controls_enabled_def autoPlay_effect_def effect_deps_def)
qed

lemma inv_ClickAutoPlay:
  assumes "controller_inv c" "autoPlay_enabled (app c)"
  shows "controller_inv (render c (toggleAutoPlay (app c)) (in_flight c))"
proof -
  have "in_flight c = []" using assms inv_idle by (simp add: autoPlay_enabled_def)
  then show ?thesis using assms
    by (auto simp: controller_inv_def toggleAutoPlay_def render_simps
        autoPlay_enabled_def autoPlay_effect_def effect_deps_def)
qed

lemma timer_render_stop:
  "controller_inv c \<Longrightarrow> \<not> autoPlay s' \<Longrightarrow> \<not> autoPlay (app c) \<Longrightarrow> \<not> timer (render c s' reqs)"
  by (auto simp: render_simps autoPlay_effect_def controller_inv_def)

lemma inv_ClickNewGame:
  assumes "controller_inv c"
  shows "controller_inv (render c (newGameClick (app c)) (in_flight c))"
proof -
  have t: "\<not> timer (render c (newGameClick (app c)) (in_flight c))"
  proof (cases "autoPlay (app c)")
    case True
    then have "effect_deps (newGameClick (app c)) \<noteq> effect_deps (app c)"
      by (simp add: effect_deps_def newGameClick_def)
    then show ?thesis by (simp add: render_simps autoPlay_effect_def newGameClick_def)
  next
    case False
    then show ?thesis using assms timer_render_stop by (simp add: newGameClick_def)
  qed
  show ?thesis using assms t
    unfolding controller_inv_def render_simps(1,2)
    by (simp add: newGameClick_def)
qed

lemma inv_ClickModalNewGame:
  assumes "controller_inv c" "modal_shown (app c)"
  shows "controller_inv (render c (onNewGame (app c)) (in_flight c))"
  using assms
  by (auto simp: controller_inv_def onNewGame_def render_simps modal_shown_def
      autoPlay_effect_def effect_deps_def)

lemma inv_settle:
  assumes inv: "controller_inv c" and i: "i < length (in_flight c)"
  shows "\<exists>c'. settle c i result = Inr c' \<and> controller_inv c'"
proof -
  obtain r where r: "in_flight c = [r]" and ld: "loading (app c)"
    using inv_in_flight [OF inv] i by auto
  have i0: "i = 0" using i r by simp
  have notimer: "\<not> timer c"
    using inv_timer [OF inv] ld by (auto simp: autoPlay_effect_def)
  show ?thesis
  proof (cases r)
    case PostGameNew
    have np: "\<not> autoPlay (app c)" using inv r PostGameNew by (auto simp: controller_inv_def)
    from startNewGame_resume_cases [where result = result and s = "app c"]
    show ?thesis using inv r i0 PostGameNew np notimer
      by (auto simp: settle_def controller_inv_def render_simps autoPlay_effect_def)
  next
    case (PostTurn gid)
    have it: "iterable (history (app c))" using inv r PostTurn by (auto simp: controller_inv_def)
    then obtain s' where s': "playTurn_resume result (app c) = Inr s'"
      using playTurn_resume_returns by blast
    note f = playTurn_resume_fields [OF s']
    have "controller_inv (render c s' [])"
      using inv f it ld
      by (auto simp: controller_inv_def render_simps autoPlay_effect_def effect_deps_def)
    then show ?thesis using r i0 PostTurn s' by (simp add: settle_def)
  next
    case (PostFastForward gid n)
    have np: "\<not> autoPlay (app c)" using inv r PostFastForward by (auto simp: controller_inv_def)
    note f = fastForward_resume_fields [where result = result and s = "app c"]
    have "controller_inv (render c (fastForward_resume result (app c)) [])"
      using inv f np notimer
      by (auto simp: controller_inv_def render_simps autoPlay_effect_def)
    then show ?thesis using r i0 PostFastForward by (simp add: settle_def)
  next
    case (PostPlay gid)
    have np: "\<not> autoPlay (app c)" using inv r PostPlay by (auto simp: controller_inv_def)
    note f = playToEnd_resume_fields [where result = result and s = "app c"]
    have "controller_inv (render c (playToEnd_resume result (app c)) [])"
      using inv f np notimer
      by (auto simp: controller_inv_def render_simps autoPlay_effect_def)
    then show ?thesis using r i0 PostPlay by (simp add: settle_def)
  qed
qed

lemma step_invariant:
  assumes inv: "controller_inv c"
  shows "\<exists>c'. step c e = Inr c' \<and> controller_inv c'"
proof (cases e)
  case ClickStartGame
  then show ?thesis using inv inv_ClickStartGame by simp
next
  case ClickPlayTurn
  then show ?thesis using inv inv_turn_begin [of c "timer c"]
    by (simp add: turn_controls_enabled_def)
next
  case ClickAutoPlay
  then show ?thesis using inv inv_ClickAutoPlay by simp
next
  case ClickSkip10
  then show ?thesis using inv inv_batch_begin by simp
next
  case ClickPlayToEnd
  then show ?thesis using inv inv_batch_begin by simp
next
  case ClickNewGame
  then show ?thesis using inv inv_ClickNewGame by simp
next
  case ClickModalNewGame
  then show ?thesis using inv inv_ClickModalNewGame by simp
next
  case TimerFires
  show ?thesis
  proof (cases "timer c")
    case True
    then have "autoPlay_effect (app c)" using inv inv_timer by blast
    moreover from this have "truthy (gameId (app c))"
      using inv by (auto simp: controller_inv_def autoPlay_effect_def)
    ultimately show ?thesis using TimerFires True inv inv_turn_begin [of c False]
      by (simp add: autoPlay_effect_def)
  next
    case False
    then show ?thesis using TimerFires inv by simp
  qed
next
  case (Settle i result)
  then show ?thesis using inv inv_settle by simp
qed

lemma inv_initial: "controller_inv initial_controller"
  by (simp add: controller_inv_def initial_controller_def initial_state_def autoPlay_effect_def)

lemma run_invariant:
  "controller_inv c \<Longrightarrow> \<exists>c'. run c es = Inr c' \<and> controller_inv c'"
proof (induction es arbitrary: c)
  case Nil
  then show ?case by simp
next
  case (Cons e es)
  from step_invariant [OF Cons.prems, of e]
  obtain c1 where "step c e = Inr c1" "controller_inv c1" by blast
  with Cons.IH [of c1] show ?case by simp
qed


lemma completed_not_nullish: "completed data \<Longrightarrow> \<not> nullish data"
  by (cases data) (auto simp: completed_def)

lemma completed_gameOver: "completed data \<Longrightarrow> \<exists>over. get_prop data ''gameOver'' = Inr over \<and> truthy over"
  by (auto simp: completed_def split: sum.splits)

lemma playTurn_resume_completed:
  assumes "completed data" "iterable (history s)"
  shows "\<exists>s'. playTurn_resume (Inr data) s = Inr s' \<and> gameOver s' \<and> \<not> autoPlay s' \<and> \<not> loading s'"
proof -
  obtain over where o: "get_prop data ''gameOver'' = Inr over" "truthy over"
    using assms(1) completed_gameOver by blast
  obtain st ti w where p: "get_prop data ''state'' = Inr st" "get_prop data ''turnInfo'' = Inr ti"
    "get_prop data ''winner'' = Inr w"
    using completed_not_nullish [OF assms(1)] get_prop_not_nullish by blast
  obtain xs where xs: "spread (history s) = Inr xs"
    using assms(2) iterable_spread by blast
  show ?thesis
    by (simp add: playTurn_resume_def playTurn_try_def and_then_def Let_def o p xs)
qed

lemma fastForward_resume_completed:
  assumes "completed data"
  shows "gameOver (fastForward_resume (Inr data) s)"
proof -
  obtain over where o: "get_prop data ''gameOver'' = Inr over" "truthy over"
    using assms(1) completed_gameOver by blast
  obtain st w where p: "get_prop data ''state'' = Inr st" "get_prop data ''winner'' = Inr w"
    using completed_not_nullish [OF assms(1)] get_prop_not_nullish by blast
  show ?thesis
    by (simp add: fastForward_resume_def fastForward_try_def Let_def o p)
qed

lemma playToEnd_resume_completed:
  assumes "\<not> nullish data"
  shows "gameOver (playToEnd_resume (Inr data) s)"
proof -
  obtain st h w where p: "get_prop data ''state'' = Inr st" "get_prop data ''history'' = Inr h"
    "get_prop data ''winner'' = Inr w"
    using assms get_prop_not_nullish by blast
  show ?thesis
    by (simp add: playToEnd_resume_def playToEnd_try_def Let_def p)
qed

lemma settle_completed:
  assumes inv: "controller_inv c" and i: "i < length (in_flight c)"
    and r: "in_flight c ! i \<noteq> PostGameNew" and d: "completed data"
  shows "\<exists>c'. step c (Settle i (Inr data)) = Inr c' \<and> controller_inv c' \<and> gameOver (app c')
           \<and> \<not> autoPlay (app c') \<and> \<not> timer c' \<and> in_flight c' = []"
proof -
  obtain c' where c': "step c (Settle i (Inr data)) = Inr c'" and inv': "controller_inv c'"
    using step_invariant [OF inv] by blast
  obtain q where q: "in_flight c = [q]" using inv_in_flight [OF inv] i by auto
  have i0: "i = 0" using i q by simp
  have go: "gameOver (app c') \<and> in_flight c' = []"
  proof (cases q)
    case PostGameNew
    then show ?thesis using r q i0 by simp
  next
    case (PostTurn gid)
    then have "iterable (history (app c))" using inv q by (auto simp: controller_inv_def)
    from playTurn_resume_completed [OF d this]
    show ?thesis using c' i q i0 PostTurn by (auto simp: settle_def render_simps)
  next
    case (PostFastForward gid n)
    then show ?thesis using c' i q i0 fastForward_resume_completed [OF d, of "app c"]
      by (auto simp: settle_def render_simps)
  next
    case (PostPlay gid)
    then show ?thesis
      using c' i q i0 playToEnd_resume_completed [OF completed_not_nullish [OF d], of "app c"]
      by (auto simp: settle_def render_simps)
  qed
  moreover have "\<not> autoPlay (app c')" using inv' go by (auto simp: controller_inv_def)
  moreover have "\<not> timer c'" using inv' go by (auto simp: controller_inv_def autoPlay_effect_def)
  ultimately show ?thesis using c' inv' by blast
qed

lemma no_live_noop:
  assumes inv: "controller_inv c" and nl: "no_live_session c"
  shows "playTurn_begin (app c) = (app c, None)"
    and "step c ClickPlayTurn = Inr c" and "step c ClickAutoPlay = Inr c"
    and "step c TimerFires = Inr c"
proof -
  have g: "gameOver (app c) \<or> \<not> truthy (gameId (app c))" using nl by (simp add: no_live_session_def)
  then show "playTurn_begin (app c) = (app c, None)" by (auto simp: playTurn_begin_def)
  show "step c ClickPlayTurn = Inr c" using g by (auto simp: turn_controls_enabled_def)
  show "step c ClickAutoPlay = Inr c" using g by (auto simp: autoPlay_enabled_def)
  have "\<not> autoPlay (app c)" using inv g by (auto simp: controller_inv_def)
  then have "\<not> timer c" using inv by (auto simp: controller_inv_def autoPlay_effect_def)
  then show "step c TimerFires = Inr c" by simp
qed

lemma no_live_step:
  assumes inv: "controller_inv c" and nl: "no_live_session c"
    and nc: "\<not> creates_session c e" and st: "step c e = Inr c'"
  shows "no_live_session c'"
proof (cases e)
  case ClickStartGame
  then show ?thesis using nl st
    by (auto simp: no_live_session_def launch_def startNewGame_begin_def render_simps
        split: if_splits)
next
  case ClickPlayTurn
  then show ?thesis using no_live_noop(2) [OF inv nl] nl st by simp
next
  case ClickAutoPlay
  then show ?thesis using no_live_noop(3) [OF inv nl] nl st by simp
next
  case ClickSkip10
  then show ?thesis using nl st
    by (auto simp: no_live_session_def turn_controls_enabled_def split: if_splits)
next
  case ClickPlayToEnd
  then show ?thesis using nl st
    by (auto simp: no_live_session_def turn_controls_enabled_def split: if_splits)
next
  case ClickNewGame
  then show ?thesis using nl st
    by (auto simp: no_live_session_def newGameClick_def render_simps split: if_splits)
next
  case ClickModalNewGame
  then show ?thesis using nl st
    by (auto simp: no_live_session_def onNewGame_def render_simps split: if_splits)
next
  case TimerFires
  then show ?thesis using no_live_noop(4) [OF inv nl] nl st by simp
next
  case (Settle i result)
  show ?thesis
  proof (cases "i < length (in_flight c)")
    case False
    then show ?thesis using Settle nl st by simp
  next
    case True
    then obtain q where q: "in_flight c = [q]" using inv_in_flight [OF inv] by auto
    then have qn: "q = PostGameNew" using nl by (simp add: no_live_session_def)
    have i0: "i = 0" using True q by simp
    have "startNewGame_resume result (app c) = (app c)\<lparr>loading := False\<rparr>"
    proof (cases result)
      case (Inl error)
      then show ?thesis by (simp add: startNewGame_resume_def and_then_def)
    next
      case (Inr data)
      then have "nullish data" using nc Settle True q qn i0 by simp
      then show ?thesis using Inr
        by (simp add: startNewGame_resume_def and_then_def get_prop_of_nullish)
    qed
    then show ?thesis using Settle True q qn i0 nl st
      by (auto simp: settle_def no_live_session_def render_simps)
  qed
qed

lemma no_live_run:
  "controller_inv c \<Longrightarrow> no_live_session c \<Longrightarrow> no_new_session c es \<Longrightarrow>
     \<exists>c'. run c es = Inr c' \<and> controller_inv c' \<and> no_live_session c'"
proof (induction es arbitrary: c)
  case Nil
  then show ?case by simp
next
  case (Cons e es)
  obtain c1 where c1: "step c e = Inr c1" "controller_inv c1"
    using step_invariant [OF Cons.prems(1)] by blast
  have "\<not> creates_session c e" "no_new_session c1 es"
    using Cons.prems(3) c1 by simp_all
  moreover from this have "no_live_session c1"
    using no_live_step [OF Cons.prems(1,2) _ c1(1)] by blast
  ultimately show ?case using Cons.IH [OF c1(2)] c1 by simp
qed

text \<open>
  Claim C2. Whatever the observer clicks and however late the engine answers, the
  controller never has more than one request in flight, so never more than one turn request.
  While a request is in flight \<open>loading\<close> is set and no auto-play timer is pending: the
  timer that issues the next turn request is set only once the previous response or failure
  has been received and applied.
\<close>

theorem at_most_one_request_in_flight:
  "\<exists>c. run initial_controller es = Inr c
     \<and> length (in_flight c) \<le> 1
     \<and> length (filter is_turn (in_flight c)) \<le> 1
     \<and> (timer c \<longrightarrow> in_flight c = [])
     \<and> (in_flight c \<noteq> [] \<longrightarrow> loading (app c) \<and> \<not> timer c)"
proof -
  obtain c where c: "run initial_controller es = Inr c" "controller_inv c"
    using run_invariant [OF inv_initial] by blast
  have l: "length (in_flight c) \<le> 1" using c(2) by (simp add: controller_inv_def)
  have "length (filter is_turn (in_flight c)) \<le> length (in_flight c)" by simp
  with l have lt: "length (filter is_turn (in_flight c)) \<le> 1" by linarith
  have "in_flight c \<noteq> [] \<longrightarrow> loading (app c) \<and> \<not> timer c"
    using c(2) by (auto simp: controller_inv_def autoPlay_effect_def)
  with c l lt show ?thesis by blast
qed

theorem at_most_one_request_in_flight_witness:
  "(\<exists>c. run initial_controller
          [ClickStartGame,
           Settle 0 (Inr (JObj [(''gameId'', JStr ''g1''), (''state'', JNull), (''agents'', JArr [])])),
           ClickAutoPlay] = Inr c
        \<and> timer c \<and> in_flight c = [])
   \<and> (\<exists>c. run initial_controller
          [ClickStartGame,
           Settle 0 (Inr (JObj [(''gameId'', JStr ''g1''), (''state'', JNull), (''agents'', JArr [])])),
           ClickAutoPlay, TimerFires, TimerFires, ClickPlayTurn] = Inr c
        \<and> in_flight c = [PostTurn (JStr ''g1'')] \<and> loading (app c) \<and> \<not> timer c)"
proof -
  let ?new = "Settle 0 (Inr (JObj [(''gameId'', JStr ''g1''), (''state'', JNull), (''agents'', JArr [])]))"
  let ?a = "run initial_controller [ClickStartGame, ?new, ClickAutoPlay]"
  let ?b = "run initial_controller
              [ClickStartGame, ?new, ClickAutoPlay, TimerFires, TimerFires, ClickPlayTurn]"
  have a: "?a = Inr (projr ?a)" "timer (projr ?a)"
    by code_simp+
  have b: "?b = Inr (projr ?b)" "in_flight (projr ?b) = [PostTurn (JStr ''g1'')]"
    by code_simp+
  obtain c where c: "?a = Inr c" "timer c \<longrightarrow> in_flight c = []"
    using at_most_one_request_in_flight [of "[ClickStartGame, ?new, ClickAutoPlay]"] by blast
  obtain c' where c': "?b = Inr c'" "in_flight c' \<noteq> [] \<longrightarrow> loading (app c') \<and> \<not> timer c'"
    using at_most_one_request_in_flight
      [of "[ClickStartGame, ?new, ClickAutoPlay, TimerFires, TimerFires, ClickPlayTurn]"]
    by blast
  have "c = projr ?a" using a(1) c(1) by simp
  then have 1: "timer c \<and> in_flight c = []" using a(2) c(2) by simp
  have "c' = projr ?b" using b(1) c'(1) by simp
  then have 2: "in_flight c' = [PostTurn (JStr ''g1'')] \<and> loading (app c') \<and> \<not> timer c'"
    using b(2) c'(2) by simp
  from 1 2 c(1) c'(1) show ?thesis by blast
qed

text \<open>
  Claim C3. When the response to a step, batch or play-to-completion request carries a
  truthy \<open>gameOver\<close>, the controller is in the game-over state at once, with auto-play off
  and no timer pending and nothing in flight. From then on, until a session creation
  succeeds, no turn request is issued, and a step (by the button or by the timer) or an
  auto-play toggle changes nothing.
\<close>

theorem game_over_is_terminal:
  assumes "run initial_controller es0 = Inr c"
    and "i < length (in_flight c)" and "in_flight c ! i \<noteq> PostGameNew"
    and "completed data"
  shows "\<exists>c1. step c (Settle i (Inr data)) = Inr c1
           \<and> gameOver (app c1) \<and> \<not> autoPlay (app c1) \<and> \<not> timer c1 \<and> in_flight c1 = []
           \<and> (\<forall>es. no_new_session c1 es \<longrightarrow>
                 (\<exists>c2. run c1 es = Inr c2
                    \<and> \<not> list_ex is_turn (in_flight c2)
                    \<and> playTurn_begin (app c2) = (app c2, None)
                    \<and> step c2 ClickPlayTurn = Inr c2
                    \<and> step c2 ClickAutoPlay = Inr c2
                    \<and> step c2 TimerFires = Inr c2))"
proof -
  have inv: "controller_inv c"
    using run_invariant [OF inv_initial, of es0] assms(1) by simp
  obtain c1 where c1: "step c (Settle i (Inr data)) = Inr c1" "controller_inv c1"
    "gameOver (app c1)" "\<not> autoPlay (app c1)" "\<not> timer c1" "in_flight c1 = []"
    using settle_completed [OF inv assms(2,3,4)] by blast
  have nl: "no_live_session c1" using c1 by (simp add: no_live_session_def)
  have "\<exists>c2. run c1 es = Inr c2
                    \<and> \<not> list_ex is_turn (in_flight c2)
                    \<and> playTurn_begin (app c2) = (app c2, None)
                    \<and> step c2 ClickPlayTurn = Inr c2
                    \<and> step c2 ClickAutoPlay = Inr c2
                    \<and> step c2 TimerFires = Inr c2" if h: "no_new_session c1 es" for es
  proof -
    obtain c2 where c2: "run c1 es = Inr c2" "controller_inv c2" "no_live_session c2"
      using no_live_run [OF c1(2) nl h] by blast
    have "\<not> list_ex is_turn (in_flight c2)"
      using c2(3) by (auto simp: no_live_session_def list_ex_iff list_all_iff)
    then show ?thesis using c2(1) no_live_noop [OF c2(2,3)] by blast
  qed
  then show ?thesis using c1 by blast
qed

theorem game_over_is_terminal_witness:
  "\<exists>c c1 c2.
     run initial_controller
       [ClickStartGame,
        Settle 0 (Inr (JObj [(''gameId'', JStr ''g1''), (''state'', JNull), (''agents'', JArr [])])),
        ClickAutoPlay, TimerFires] = Inr c
     \<and> 0 < length (in_flight c) \<and> in_flight c ! 0 \<noteq> PostGameNew
     \<and> completed (JObj [(''state'', JNull), (''gameOver'', JBool True), (''winner'', JNum 1)])
     \<and> step c (Settle 0 (Inr (JObj [(''state'', JNull), (''gameOver'', JBool True),
                                     (''winner'', JNum 1)]))) = Inr c1
     \<and> gameOver (app c1) \<and> \<not> autoPlay (app c1) \<and> \<not> timer c1
     \<and> no_new_session c1
           [ClickPlayTurn, ClickModalNewGame, ClickStartGame, Settle 0 (Inl (AxiosError None))]
     \<and> run c1 [ClickPlayTurn, ClickModalNewGame, ClickStartGame, Settle 0 (Inl (AxiosError None))]
           = Inr c2
     \<and> step c2 ClickPlayTurn = Inr c2"
proof -
  let ?before = "[ClickStartGame,
        Settle 0 (Inr (JObj [(''gameId'', JStr ''g1''), (''state'', JNull), (''agents'', JArr [])])),
        ClickAutoPlay, TimerFires]"
  let ?d = "JObj [(''state'', JNull), (''gameOver'', JBool True), (''winner'', JNum 1)]"
  let ?after = "[ClickPlayTurn, ClickModalNewGame, ClickStartGame, Settle 0 (Inl (AxiosError None))]"
  let ?c = "projr (run initial_controller ?before)"
  let ?c1 = "projr (step ?c (Settle 0 (Inr ?d)))"
  have r: "run initial_controller ?before = Inr ?c" by code_simp
  have h: "0 < length (in_flight ?c)" "in_flight ?c ! 0 \<noteq> PostGameNew" "completed ?d"
    by code_simp+
  have n: "no_new_session ?c1 ?after" by code_simp
  obtain c1 where c1: "step ?c (Settle 0 (Inr ?d)) = Inr c1"
    "gameOver (app c1)" "\<not> autoPlay (app c1)" "\<not> timer c1"
    and after: "\<forall>es. no_new_session c1 es \<longrightarrow>
                 (\<exists>c2. run c1 es = Inr c2 \<and> step c2 ClickPlayTurn = Inr c2)"
    using game_over_is_terminal [OF r h] by blast
  have "c1 = ?c1" using c1(1) by simp
  with n after obtain c2 where "run c1 ?after = Inr c2" "step c2 ClickPlayTurn = Inr c2"
    by blast
  with r h n c1 \<open>c1 = ?c1\<close> show ?thesis by blast
qed

text \<open>
  Claim C9. When there is no session or the game is over, \<open>fastForward\<close> and \<open>playToEnd\<close>
  return at once: no request is issued and the component state (game state, winner and turn
  log included) is the same; the two buttons leave the controller as it is.
\<close>

theorem batch_controls_are_guarded:
  "\<not> truthy (gameId (app c)) \<or> gameOver (app c) \<Longrightarrow>
     fastForward_begin turns (app c) = (app c, None)
     \<and> playToEnd_begin (app c) = (app c, None)
     \<and> step c ClickSkip10 = Inr c
     \<and> step c ClickPlayToEnd = Inr c"
  by (auto simp: fastForward_begin_def playToEnd_begin_def turn_controls_enabled_def)

theorem batch_controls_are_guarded_witness:
  "\<not> truthy (gameId (app initial_controller))
   \<and> fastForward_begin 10 initial_state = (initial_state, None)
   \<and> step initial_controller ClickPlayToEnd = Inr initial_controller
   \<and> gameOver (initial_state\<lparr>gameId := JStr ''g1'', gameOver := True, winner := JNum 0\<rparr>)
   \<and> playToEnd_begin (initial_state\<lparr>gameId := JStr ''g1'', gameOver := True, winner := JNum 0\<rparr>)
       = (initial_state\<lparr>gameId := JStr ''g1'', gameOver := True, winner := JNum 0\<rparr>, None)"
proof -
  have a: "\<not> truthy (gameId (app initial_controller))"
    by (simp add: initial_controller_def initial_state_def)
  then have a': "\<not> truthy (gameId (app initial_controller)) \<or> gameOver (app initial_controller)"
    by simp
  let ?over = "initial_state\<lparr>gameId := JStr ''g1'', gameOver := True, winner := JNum 0\<rparr>"
  let ?c = "\<lparr>app = ?over, timer = False, in_flight = []\<rparr>"
  have b: "\<not> truthy (gameId (app ?c)) \<or> gameOver (app ?c)" by simp
  show ?thesis
    using a batch_controls_are_guarded [OF a', of 10] batch_controls_are_guarded [OF b, of 10]
    by (simp add: initial_controller_def)
qed

lemma startNewGame_resume_failed:
  "\<not> creates_session c (Settle i result) \<Longrightarrow> i < length (in_flight c) \<Longrightarrow>
     in_flight c ! i = PostGameNew \<Longrightarrow>
     startNewGame_resume result s = s\<lparr>loading := False\<rparr>"
  by (cases result)
     (simp_all add: startNewGame_resume_def and_then_def get_prop_of_nullish)

lemma idle_step:
  assumes g: "\<not> truthy (gameId (app c))" and o: "\<not> gameOver (app c)"
    and f: "list_all (\<lambda>r. r = PostGameNew) (in_flight c)"
    and nc: "\<not> creates_session c e"
  shows "\<exists>c'. step c e = Inr c' \<and> \<not> truthy (gameId (app c')) \<and> \<not> gameOver (app c')
           \<and> list_all (\<lambda>r. r = PostGameNew) (in_flight c')
           \<and> history (app c') = history (app c) \<and> winner (app c') = winner (app c)"
proof (cases e)
  case ClickStartGame
  then show ?thesis using g o f
    by (simp add: launch_def startNewGame_begin_def render_simps)
next
  case ClickPlayTurn
  then show ?thesis using g o f by (simp add: turn_controls_enabled_def)
next
  case ClickAutoPlay
  then show ?thesis using g o f by (simp add: autoPlay_enabled_def)
next
  case ClickSkip10
  then show ?thesis using g o f by (simp add: turn_controls_enabled_def)
next
  case ClickPlayToEnd
  then show ?thesis using g o f by (simp add: turn_controls_enabled_def)
next
  case ClickNewGame
  then show ?thesis using g o f by (simp add: newGame_shown_def)
next
  case ClickModalNewGame
  then show ?thesis using g o f by (simp add: modal_shown_def)
next
  case TimerFires
  then show ?thesis using g o f
    by (simp add: launch_def playTurn_begin_def render_simps)
next
  case (Settle i result)
  show ?thesis
  proof (cases "i < length (in_flight c)")
    case False
    then show ?thesis using Settle g o f by simp
  next
    case True
    then have q: "in_flight c ! i = PostGameNew"
      using f by (simp add: list_all_length)
    have r: "startNewGame_resume result (app c) = (app c)\<lparr>loading := False\<rparr>"
      using startNewGame_resume_failed nc Settle True q by blast
    have "set (take i (in_flight c) @ drop (Suc i) (in_flight c)) \<subseteq> set (in_flight c)"
      using set_take_subset set_drop_subset by (metis Un_least set_append)
    then have "list_all (\<lambda>r. r = PostGameNew) (take i (in_flight c) @ drop (Suc i) (in_flight c))"
      using f unfolding list_all_iff by blast
    then show ?thesis using Settle True q r g o
      by (simp add: settle_def render_simps)
  qed
qed

lemma idle_run:
  "\<not> truthy (gameId (app c)) \<Longrightarrow> \<not> gameOver (app c) \<Longrightarrow>
   list_all (\<lambda>r. r = PostGameNew) (in_flight c) \<Longrightarrow> no_new_session c es \<Longrightarrow>
     \<exists>c'. run c es = Inr c' \<and> \<not> truthy (gameId (app c'))
       \<and> history (app c') = history (app c) \<and> winner (app c') = winner (app c)"
proof (induction es arbitrary: c)
  case Nil
  then show ?case by simp
next
  case (Cons e es)
  have nc: "\<not> creates_session c e" using Cons.prems(4) by simp
  obtain c1 where c1: "step c e = Inr c1" "\<not> truthy (gameId (app c1))" "\<not> gameOver (app c1)"
    "list_all (\<lambda>r. r = PostGameNew) (in_flight c1)"
    "history (app c1) = history (app c)" "winner (app c1) = winner (app c)"
    using idle_step [OF Cons.prems(1,2,3) nc] by blast
  have "no_new_session c1 es" using Cons.prems(4) c1(1) by simp
  from Cons.IH [OF c1(2,3,4) this] c1 show ?case by simp
qed

text \<open>
  Claim C10. The in-game New Game button resets \<open>gameId\<close>, \<open>gameState\<close>, \<open>gameOver\<close> and
  \<open>autoPlay\<close> and leaves the turn log and the winner as they were. Starting a game does
  not touch the log either; a creation that fails leaves the previous log and winner in
  place, and only a creation whose response can be read sets the log to the empty array.
  With nothing in flight at the click, whatever happens afterwards, the log and the winner
  of the previous session stay until a session creation succeeds.
\<close>

theorem new_game_click_keeps_log:
  "newGameClick s = s\<lparr>gameId := JNull, gameState := JNull, gameOver := False, autoPlay := False\<rparr>
   \<and> history (newGameClick s) = history s
   \<and> winner (newGameClick s) = winner s
   \<and> history (fst (startNewGame_begin (newGameClick s))) = history s
   \<and> history (startNewGame_resume (Inl error) (fst (startNewGame_begin (newGameClick s))))
       = history s
   \<and> winner (startNewGame_resume (Inl error) (fst (startNewGame_begin (newGameClick s))))
       = winner s
   \<and> history (startNewGame_resume (Inr data) (fst (startNewGame_begin (newGameClick s))))
       = (if nullish data then history s else JArr [])
   \<and> step c ClickNewGame =
       Inr (if truthy (gameId (app c)) then render c (newGameClick (app c)) (in_flight c) else c)
   \<and> app (render c (newGameClick (app c)) (in_flight c)) = newGameClick (app c)
   \<and> (truthy (gameId (app c)) \<and> in_flight c = [] \<and> no_new_session c (ClickNewGame # es) \<longrightarrow>
        (\<exists>c'. run c (ClickNewGame # es) = Inr c'
           \<and> history (app c') = history (app c) \<and> winner (app c') = winner (app c)
           \<and> \<not> truthy (gameId (app c'))))"
proof -
  have created: "history (startNewGame_resume (Inr data) (fst (startNewGame_begin (newGameClick s))))
       = (if nullish data then history s else JArr [])"
  proof (cases "nullish data")
    case True
    then show ?thesis
      by (simp add: startNewGame_resume_def startNewGame_begin_def newGameClick_def and_then_def
          get_prop_of_nullish)
  next
    case False
    then obtain gid st ags where "get_prop data ''gameId'' = Inr gid"
      "get_prop data ''state'' = Inr st" "get_prop data ''agents'' = Inr ags"
      using get_prop_not_nullish by blast
    then show ?thesis using False
      by (simp add: startNewGame_resume_def startNewGame_begin_def newGameClick_def and_then_def)
  qed
  have later: "\<exists>c'. run c (ClickNewGame # es) = Inr c'
           \<and> history (app c') = history (app c) \<and> winner (app c') = winner (app c)
           \<and> \<not> truthy (gameId (app c'))"
    if h: "truthy (gameId (app c))" "in_flight c = []" "no_new_session c (ClickNewGame # es)"
  proof -
    let ?c1 = "render c (newGameClick (app c)) (in_flight c)"
    have s1: "step c ClickNewGame = Inr ?c1" using h(1) by (simp add: newGame_shown_def)
    have n: "no_new_session ?c1 es" using h(3) s1 by simp
    have "\<exists>c'. run ?c1 es = Inr c' \<and> \<not> truthy (gameId (app c'))
       \<and> history (app c') = history (app ?c1) \<and> winner (app c') = winner (app ?c1)"
      using h(2) n by (intro idle_run) (simp_all add: render_simps newGameClick_def)
    then show ?thesis using s1 by (auto simp: render_simps newGameClick_def)
  qed
  have click: "newGameClick s =
      s\<lparr>gameId := JNull, gameState := JNull, gameOver := False, autoPlay := False\<rparr>"
    "history (newGameClick s) = history s" "winner (newGameClick s) = winner s"
    by (simp_all add: newGameClick_def)
  have start: "history (fst (startNewGame_begin (newGameClick s))) = history s"
    by (simp add: startNewGame_begin_def newGameClick_def)
  have failed:
    "history (startNewGame_resume (Inl error) (fst (startNewGame_begin (newGameClick s))))
       = history s"
    "winner (startNewGame_resume (Inl error) (fst (startNewGame_begin (newGameClick s))))
       = winner s"
    by (simp_all add: startNewGame_resume_def startNewGame_begin_def newGameClick_def and_then_def)
  have button: "step c ClickNewGame =
       Inr (if truthy (gameId (app c)) then render c (newGameClick (app c)) (in_flight c) else c)"
    "app (render c (newGameClick (app c)) (in_flight c)) = newGameClick (app c)"
    by (simp_all add: newGame_shown_def render_def)
  from click start failed created button later show ?thesis
    by blast
qed

theorem new_game_click_keeps_log_witness:
  "\<exists>c c'. c = \<lparr>app = initial_state\<lparr>gameId := JStr ''g1'', history := JArr [JNum 1], winner := JNum 0\<rparr>,
              timer = False, in_flight = []\<rparr>
     \<and> truthy (gameId (app c)) \<and> in_flight c = []
     \<and> no_new_session c [ClickNewGame, ClickStartGame, Settle 0 (Inl (AxiosError None))]
     \<and> run c [ClickNewGame, ClickStartGame, Settle 0 (Inl (AxiosError None))] = Inr c'
     \<and> history (app c') = JArr [JNum 1] \<and> winner (app c') = JNum 0
     \<and> gameId (app c') = JNull"
proof -
  let ?c = "\<lparr>app = initial_state\<lparr>gameId := JStr ''g1'', history := JArr [JNum 1], winner := JNum 0\<rparr>,
              timer = False, in_flight = []\<rparr>"
  let ?later = "[ClickStartGame, Settle 0 (Inl (AxiosError None))]"
  have h: "truthy (gameId (app ?c))" "in_flight ?c = []" by simp_all
  have n: "no_new_session ?c (ClickNewGame # ?later)" by code_simp
  have g: "gameId (app (projr (run ?c (ClickNewGame # ?later)))) = JNull" by code_simp
  obtain c' where c': "run ?c (ClickNewGame # ?later) = Inr c'"
    "history (app c') = history (app ?c)" "winner (app c') = winner (app ?c)"
    using new_game_click_keeps_log [of _ _ _ ?c ?later] h n by blast
  have "gameId (app c') = JNull" using g c'(1) by simp
  with c' h n show ?thesis by (intro exI [of _ ?c] exI [of _ c']) simp
qed

end
